theory Spec2Isabelle
  imports Complex_Main "HOL-Library.Monad_Syntax"
begin

text \<open>
  The one-vs-all kernel ridge regression driver \<open>KRR_OneVsAll_RandBin.cpp\<close>: its scorer,
  its label recoding, the row-compressed stores that main fills by hand, its argument
  parser and the reseeding of its hyperparameter sweep. The matrix library and the
  random binning generator are not part of the sources; what the driver needs of them is
  modelled where it is used.
\<close>

section \<open>Numeric values\<close>

text \<open>
  A finite C \<open>double\<close> is modelled as the real number it denotes. The rounding of the
  scorers' final division and multiplication is not part of the model: the model carries
  the exact value of \<open>perf/n * 100.0\<close>, and the double that the program returns differs
  from it by that rounding only. The underflow of the product in the binary scorer's test
  is part of the model (\<open>product_positive\<close> below). The special values that the program
  produces by dividing by zero are kept apart from the numbers, so that \<open>0.0/0\<close> is \<open>NaN\<close>
  here and not a number.
\<close>

datatype cdouble = Fin real | PInf | NInf | NaN

definition ddiv :: "real \<Rightarrow> real \<Rightarrow> cdouble" where
  "ddiv a b =
     (if b \<noteq> 0 then Fin (a / b)
      else if a = 0 then NaN
      else if 0 < a then PInf else NInf)"

text \<open>Multiplication of a \<open>double\<close> by the positive constant \<open>100.0\<close>.\<close>

fun times100 :: "cdouble \<Rightarrow> cdouble" where
  "times100 (Fin x) = Fin (x * 100)"
| "times100 PInf = PInf"
| "times100 NInf = NInf"
| "times100 NaN = NaN"

text \<open>
  The cast \<open>(int)x\<close> of a \<open>double\<close> truncates toward zero. (For a value outside the range
  of \<open>int\<close> the cast is undefined in C; the labels the program casts are class ids.)
\<close>

definition int_cast :: "real \<Rightarrow> int" where
  "int_cast x = (if 0 \<le> x then \<lfloor>x\<rfloor> else \<lceil>x\<rceil>)"

section \<open>The performance scorer\<close>

text \<open>
  A \<open>DVector\<close> is a list of reals; \<open>GetN\<close> is its length. A scorer that prints an error
  message and returns \<open>NAN\<close> yields \<open>Inl\<close> of the message it printed.
\<close>

type_synonym DVector = "real list"

datatype perf_error =
    Vector_lengths_mismatch
  | Neither_regression_nor_binary
  | Size_mismatch
  | Not_multiclass

definition reported :: "perf_error + cdouble \<Rightarrow> bool" where
  "reported res = isl res"

fun returned :: "perf_error + cdouble \<Rightarrow> cdouble" where
  "returned (Inl e) = NaN"
| "returned (Inr v) = v"

text \<open>
  Modelled from the spec: \<open>DVector::Subtract\<close> and \<open>DVector::Norm2\<close> belong to the matrix
  library, which is not among the sources; the regression score is the relative L2 error
  \<open>\<parallel>y' - y\<parallel> / \<parallel>y\<parallel>\<close>.
\<close>

definition Subtract :: "DVector \<Rightarrow> DVector \<Rightarrow> DVector" where
  "Subtract a b = map2 (-) a b"

definition Norm2 :: "DVector \<Rightarrow> real" where
  "Norm2 v = sqrt (\<Sum>x\<leftarrow>v. x * x)"

text \<open>
  The test \<open>y1[i]*y2[i] > 0\<close> of the binary scorer multiplies two doubles. In IEEE 754
  binary64 arithmetic with the default rounding the exact product is rounded to the
  nearest double, ties to even, and the rounded product is compared with 0. The smallest
  positive double is \<open>2^-1074\<close>, so the rounded product is positive exactly
  when the exact product is greater than \<open>2^-1075\<close>: a positive product of at most
  \<open>2^-1075\<close> underflows to \<open>0.0\<close> and fails the test, and a product beyond the largest
  double becomes \<open>+infinity\<close> and passes it.
\<close>

definition product_positive :: "real \<Rightarrow> real \<Rightarrow> bool" where
  "product_positive a b \<longleftrightarrow> 1 / 2 ^ 1075 < a * b"

text \<open>The loop \<open>for (i = 0; i < n; i++) perf += y1[i]*y2[i]>0 ? 1.0:0.0;\<close> over two
  vectors of the same length \<open>n\<close>.\<close>

fun binary_loop :: "DVector \<Rightarrow> DVector \<Rightarrow> real \<Rightarrow> real" where
  "binary_loop (a # y1) (b # y2) perf =
     binary_loop y1 y2 (perf + (if product_positive a b then 1 else 0))"
| "binary_loop _ _ perf = perf"

definition Performance :: "DVector \<Rightarrow> DVector \<Rightarrow> int \<Rightarrow> perf_error + cdouble" where
  "Performance ytest_truth ytest_predict NumClasses =
     (let n = length ytest_truth in
      if n \<noteq> length ytest_predict then Inl Vector_lengths_mismatch
      else if NumClasses \<noteq> 1 \<and> NumClasses \<noteq> 2 then Inl Neither_regression_nor_binary
      else if NumClasses = 1 then
        Inr (ddiv (Norm2 (Subtract ytest_truth ytest_predict)) (Norm2 ytest_truth))
      else
        Inr (times100 (ddiv (binary_loop ytest_truth ytest_predict 0) (real n))))"


text \<open>
  Modelled from the spec: \<open>DMatrix\<close> belongs to the matrix library, which is not among
  the sources. A matrix has \<open>GetM\<close> rows and \<open>GetN\<close> columns and is kept here as the
  list of its columns; \<open>Init\<close> gives the zero matrix, \<open>SetColumn\<close> replaces one column by
  a vector of the right length, \<open>GetRow\<close> reads one row. A call with a column index or a
  vector length that does not fit the matrix has no result in the model.
\<close>

record DMatrix =
  GetM :: nat
  GetN :: nat
  columns :: "DVector list"

definition DMatrix_Init :: "nat \<Rightarrow> nat \<Rightarrow> DMatrix" where
  "DMatrix_Init m n = \<lparr>GetM = m, GetN = n, columns = replicate n (replicate m 0)\<rparr>"

definition SetColumn :: "DMatrix \<Rightarrow> int \<Rightarrow> DVector \<Rightarrow> DMatrix option" where
  "SetColumn A i y =
     (if 0 \<le> i \<and> i < int (GetN A) \<and> length y = GetM A \<and> length (columns A) = GetN A
      then Some (A\<lparr>columns := (columns A)[nat i := y]\<rparr>)
      else None)"

definition GetRow :: "DMatrix \<Rightarrow> nat \<Rightarrow> DVector" where
  "GetRow A i = map (\<lambda>c. c ! i) (columns A)"

definition entry :: "DMatrix \<Rightarrow> nat \<Rightarrow> nat \<Rightarrow> real" where
  "entry A j i = columns A ! i ! j"

definition wf_DMatrix :: "DMatrix \<Rightarrow> bool" where
  "wf_DMatrix A \<longleftrightarrow>
     length (columns A) = GetN A \<and> list_all (\<lambda>c. length c = GetM A) (columns A)"

text \<open>
  Modelled from the spec: \<open>DVector::Max\<close> is part of the absent matrix library. The spec
  asks for the argmax with ties resolved by the first-encountered maximum: a scan from
  the left that moves only on a strictly larger value. On an empty vector the index
  keeps the value \<open>-1\<close> it had before the call.
\<close>

fun Max_loop :: "DVector \<Rightarrow> nat \<Rightarrow> real \<Rightarrow> int \<Rightarrow> int" where
  "Max_loop [] k m idx = idx"
| "Max_loop (x # xs) k m idx =
     (if m < x then Max_loop xs (Suc k) x (int k) else Max_loop xs (Suc k) m idx)"

definition Max_idx :: "DVector \<Rightarrow> int" where
  "Max_idx row = (case row of [] \<Rightarrow> -1 | x # xs \<Rightarrow> Max_loop xs 1 x 0)"

text \<open>
  The argmax as the spec words it: position \<open>k\<close> holds a largest score of the row, and every
  position before it holds a strictly smaller one (the lowest index among the maxima).
\<close>

definition first_argmax :: "DVector \<Rightarrow> nat \<Rightarrow> bool" where
  "first_argmax row k \<longleftrightarrow>
     k < length row \<and> (\<forall>j < length row. row ! j \<le> row ! k) \<and> (\<forall>j < k. row ! j < row ! k)"

text \<open>The loop \<open>perf += ((int)y1[i])==((int)y2[i]) ? 1.0 : 0.0\<close>.\<close>

fun multiclass_loop :: "DVector \<Rightarrow> DVector \<Rightarrow> real \<Rightarrow> real" where
  "multiclass_loop (a # y1) (b # y2) perf =
     multiclass_loop y1 y2 (perf + (if int_cast a = int_cast b then 1 else 0))"
| "multiclass_loop _ _ perf = perf"

definition predict_classes :: "DMatrix \<Rightarrow> nat \<Rightarrow> DVector" where
  "predict_classes Ytest_predict n =
     map (\<lambda>i. real_of_int (Max_idx (GetRow Ytest_predict i))) [0..<n]"

definition Performance_DMatrix :: "DVector \<Rightarrow> DMatrix \<Rightarrow> int \<Rightarrow> perf_error + cdouble" where
  "Performance_DMatrix ytest_truth Ytest_predict NumClasses =
     (let n = length ytest_truth in
      if n \<noteq> GetM Ytest_predict \<or> int (GetN Ytest_predict) \<noteq> NumClasses
      then Inl Size_mismatch
      else if NumClasses \<le> 2 then Inl Not_multiclass
      else
        let ytest_predict = predict_classes Ytest_predict n
        in Inr (times100 (ddiv (multiclass_loop ytest_truth ytest_predict 0) (real n))))"

text \<open>
  The binary score as the spec words it: the percentage of test points whose prediction
  and truth have equal sign, \<open>sign(y') = sign(y)\<close>.
\<close>

definition spec_sign_accuracy :: "DVector \<Rightarrow> DVector \<Rightarrow> real" where
  "spec_sign_accuracy y1 y2 =
     real (card {i. i < length y1 \<and> sgn (y1 ! i) = sgn (y2 ! i)}) / real (length y1) * 100"

section \<open>Label recoding\<close>

definition recode :: "int \<Rightarrow> DVector \<Rightarrow> DVector" where
  "recode i ytrain = map (\<lambda>v. if int_cast v = i then 1 else -1) ytrain"

function ConvertYtrain_loop :: "DVector \<Rightarrow> int \<Rightarrow> int \<Rightarrow> DMatrix \<Rightarrow> DMatrix option" where
  "ConvertYtrain_loop ytrain NumClasses i Ytrain =
     (if i < NumClasses then
        (case SetColumn Ytrain i (recode i ytrain) of
           None \<Rightarrow> None
         | Some Y \<Rightarrow> ConvertYtrain_loop ytrain NumClasses (i + 1) Y)
      else Some Ytrain)"
  by pat_completeness auto
termination
  by (relation "measure (\<lambda>(ytrain, NumClasses, i, Ytrain). nat (NumClasses - i))") auto

declare ConvertYtrain_loop.simps [simp del]

definition ConvertYtrain :: "DVector \<Rightarrow> int \<Rightarrow> DMatrix option" where
  "ConvertYtrain ytrain NumClasses =
     ConvertYtrain_loop ytrain NumClasses 0 (DMatrix_Init (length ytrain) (nat NumClasses))"


section \<open>Raw arrays\<close>

text \<open>
  The program writes through raw pointers. A read or write at an index outside the
  array is undefined in C++; here it has no result.
\<close>

definition load :: "'a list \<Rightarrow> int \<Rightarrow> 'a option" where
  "load xs i = (if 0 \<le> i \<and> i < int (length xs) then Some (xs ! nat i) else None)"

definition store :: "'a list \<Rightarrow> int \<Rightarrow> 'a \<Rightarrow> 'a list option" where
  "store xs i v = (if 0 \<le> i \<and> i < int (length xs) then Some (xs[nat i := v]) else None)"

section \<open>The sparse feature store\<close>

text \<open>
  Modelled from the spec: \<open>SPointArray\<close> belongs to the absent matrix library. The store
  is row-compressed: \<open>Init(N, d, nnz)\<close> allocates row-start offsets of length \<open>N+1\<close>, a
  column-index array of length \<open>nnz\<close> and a value array of length \<open>nnz\<close>. The three arrays
  are the ones main reaches through \<open>GetPointerStart\<close>, \<open>GetPointerIdx\<close> and
  \<open>GetPointerX\<close> and names \<open>mystart\<close>, \<open>myidx\<close> and \<open>myX\<close>. The integers are unbounded.
\<close>

record SPointArray =
  sp_N :: int
  sp_D :: int
  sp_nnz :: int
  mystart :: "int list"
  myidx :: "int list"
  myX :: "real list"

definition SPointArray_Init :: "int \<Rightarrow> int \<Rightarrow> int \<Rightarrow> SPointArray option" where
  "SPointArray_Init N D nnz =
     (if N < 0 \<or> nnz < 0 then None
      else Some \<lparr>sp_N = N, sp_D = D, sp_nnz = nnz,
                 mystart = replicate (nat N + 1) 0,
                 myidx = replicate (nat nnz) 0,
                 myX = replicate (nat nnz) 0\<rparr>)"

subsection \<open>The identity preconditioner\<close>

function EYE_loop :: "int \<Rightarrow> int \<Rightarrow> SPointArray \<Rightarrow> SPointArray option" where
  "EYE_loop M i EYE =
     (if i < M then
        do {
          start' \<leftarrow> store (mystart EYE) i i;
          idx' \<leftarrow> store (myidx EYE) i i;
          X' \<leftarrow> store (myX EYE) i 1;
          EYE_loop M (i + 1) (EYE\<lparr>mystart := start', myidx := idx', myX := X'\<rparr>)
        }
      else Some EYE)"
  by pat_completeness auto
termination
  by (relation "measure (\<lambda>(M, i, EYE). nat (M - i))") auto

declare EYE_loop.simps [simp del]

definition make_EYE :: "int \<Rightarrow> SPointArray option" where
  "make_EYE M =
     do {
       EYE0 \<leftarrow> SPointArray_Init M M M;
       EYE1 \<leftarrow> EYE_loop M 0 EYE0;
       start' \<leftarrow> store (mystart EYE1) M (M + 1);
       Some (EYE1\<lparr>mystart := start'\<rparr>)
     }"

subsection \<open>The joint store of the generated rows\<close>

type_synonym feature_row = "(int \<times> real) list"

text \<open>The loop that computes \<open>dd\<close> from the last pair, at position \<open>r-1\<close>, of each row.\<close>

fun dd_loop :: "int \<Rightarrow> feature_row list \<Rightarrow> int \<Rightarrow> int option" where
  "dd_loop r [] dd = Some dd"
| "dd_loop r (row # rows) dd =
     (case load row (r - 1) of
        None \<Rightarrow> None
      | Some p \<Rightarrow> dd_loop r rows (if dd < fst p then fst p else dd))"

text \<open>The inner loop over the pairs of one row; \<open>ind\<close> is the running write position.\<close>

fun fill_row :: "feature_row \<Rightarrow> int \<Rightarrow> SPointArray \<Rightarrow> (int \<times> SPointArray) option" where
  "fill_row [] ind S = Some (ind, S)"
| "fill_row (p # ps) ind S =
     do {
       idx' \<leftarrow> store (myidx S) ind (fst p - 1);
       X' \<leftarrow> store (myX S) ind (snd p);
       fill_row ps (ind + 1) (S\<lparr>myidx := idx', myX := X'\<rparr>)
     }"

text \<open>The outer loop over the rows; \<open>i\<close> is the row number.\<close>

fun fill_rows ::
  "int \<Rightarrow> int \<Rightarrow> feature_row list \<Rightarrow> int \<Rightarrow> SPointArray \<Rightarrow> (int \<times> SPointArray) option" where
  "fill_rows r i [] ind S = Some (ind, S)"
| "fill_rows r i (row # rows) ind S =
     do {
       v \<leftarrow> (if i = 0 then Some 0 else map_option (\<lambda>x. x + r) (load (mystart S) (i - 1)));
       start' \<leftarrow> store (mystart S) i v;
       (ind', S') \<leftarrow> fill_row row ind (S\<lparr>mystart := start'\<rparr>);
       fill_rows r (i + 1) rows ind' S'
     }"

text \<open>
  Lines 198 to 214 of main: \<open>N\<close> stands for \<open>Xtrain_N + Xtest_N\<close>, \<open>nnz\<close> is \<open>r * N\<close>, and
  the last statement stores \<open>nnz\<close> at the position after the last row.
\<close>

definition populate :: "int \<Rightarrow> int \<Rightarrow> int \<Rightarrow> feature_row list \<Rightarrow> SPointArray option" where
  "populate r N dd instances_new =
     (let nnz = r * N in
      do {
        S0 \<leftarrow> SPointArray_Init N dd nnz;
        (ind, S1) \<leftarrow> fill_rows r 0 instances_new 0 S0;
        start' \<leftarrow> store (mystart S1) (int (length instances_new)) nnz;
        Some (S1\<lparr>mystart := start'\<rparr>)
      })"

text \<open>Lines 192 to 214: the column dimension, then the population of the store.\<close>

definition build_store :: "int \<Rightarrow> int \<Rightarrow> feature_row list \<Rightarrow> SPointArray option" where
  "build_store r N instances_new =
     do {
       dd \<leftarrow> dd_loop r instances_new 0;
       populate r N dd instances_new
     }"


section \<open>The argument parser\<close>

text \<open>
  \<open>atoi\<close> and \<open>atof\<close> are the C library's and are parameters of the model. \<open>argv[idx++]\<close>
  reads the argument at \<open>idx\<close> and advances; reading at or after \<open>argc\<close> has no result.
\<close>

record Args =
  arg_NumThreads :: int
  arg_FileTrain :: string
  arg_FileTest :: string
  arg_NumClasses :: int
  arg_d :: int
  arg_r :: int
  arg_Num_lambda :: int
  arg_List_lambda :: "real list"
  arg_Num_sigma :: int
  arg_List_sigma :: "real list"
  arg_MAXIT :: int
  arg_TOL :: real
  arg_verbose :: bool

definition next_arg :: "string list \<Rightarrow> nat \<Rightarrow> (string \<times> nat) option" where
  "next_arg argv idx = (if idx < length argv then Some (argv ! idx, idx + 1) else None)"

text \<open>The loops \<open>for (ii = 0; ii < Num; ii++) List[ii] = atof(argv[idx++])\<close>, by the number
  of iterations left.\<close>

fun read_list :: "(string \<Rightarrow> real) \<Rightarrow> string list \<Rightarrow> nat \<Rightarrow> nat \<Rightarrow> (real list \<times> nat) option" where
  "read_list atof argv 0 idx = Some ([], idx)"
| "read_list atof argv (Suc n) idx =
     do {
       (a, idx') \<leftarrow> next_arg argv idx;
       (rest, idx'') \<leftarrow> read_list atof argv n idx';
       Some (atof a # rest, idx'')
     }"

definition parse_args ::
  "(string \<Rightarrow> int) \<Rightarrow> (string \<Rightarrow> real) \<Rightarrow> string list \<Rightarrow> (Args \<times> nat) option" where
  "parse_args atoi atof argv =
     do {
       (a1, i1) \<leftarrow> next_arg argv 1;
       (a2, i2) \<leftarrow> next_arg argv i1;
       (a3, i3) \<leftarrow> next_arg argv i2;
       (a4, i4) \<leftarrow> next_arg argv i3;
       (a5, i5) \<leftarrow> next_arg argv i4;
       (a6, i6) \<leftarrow> next_arg argv i5;
       (a7, i7) \<leftarrow> next_arg argv i6;
       (lambdas, i8) \<leftarrow> read_list atof argv (nat (atoi a7)) i7;
       (a9, i9) \<leftarrow> next_arg argv i8;
       (sigmas, i10) \<leftarrow> read_list atof argv (nat (atoi a9)) i9;
       (a11, i11) \<leftarrow> next_arg argv i10;
       (a12, i12) \<leftarrow> next_arg argv i11;
       (a13, i13) \<leftarrow> next_arg argv i12;
       Some (\<lparr>arg_NumThreads = atoi a1, arg_FileTrain = a2, arg_FileTest = a3,
              arg_NumClasses = atoi a4, arg_d = atoi a5, arg_r = atoi a6,
              arg_Num_lambda = atoi a7, arg_List_lambda = lambdas,
              arg_Num_sigma = atoi a9, arg_List_sigma = sigmas,
              arg_MAXIT = atoi a11, arg_TOL = atof a12, arg_verbose = (atoi a13 \<noteq> 0)\<rparr>,
             i13)
     }"

text \<open>A stand-in for \<open>atoi\<close> on plain decimal strings, for worked examples.\<close>

fun decimal :: "string \<Rightarrow> nat \<Rightarrow> nat" where
  "decimal [] acc = acc"
| "decimal (c # cs) acc = decimal cs (10 * acc + (of_char c - 48))"

definition atoi_decimal :: "string \<Rightarrow> int" where
  "atoi_decimal s = int (decimal s 0)"

section \<open>The hyperparameter sweep\<close>

text \<open>
  The random number generator is the C library's hidden state; the model passes it
  along. \<open>srandom\<close> sets the state from the seed alone. \<open>random_binning_feature\<close> (the
  feature generator) and the training and testing that follow it in the loop body
  (\<open>train_and_test\<close>: building the store, the solver, the scorer) are parameters: each
  takes the generator state and returns the state it leaves.
\<close>

record ('g, 'out) externals =
  srandom :: "int \<Rightarrow> 'g"
  random_binning_feature ::
    "'g \<Rightarrow> int \<Rightarrow> int \<Rightarrow> feature_row list \<Rightarrow> real \<Rightarrow> feature_row list \<times> 'g"
  train_and_test :: "'g \<Rightarrow> real \<Rightarrow> real \<Rightarrow> feature_row list \<Rightarrow> 'out \<times> 'g"

text \<open>
  Modelled from the spec: \<open>DPointArray\<close> belongs to the absent matrix library; it holds
  \<open>GetN\<close> dense points, and \<open>pt_coord X i j\<close> stands for the element
  \<open>GetPointer()[j*GetN()+i]\<close>, coordinate \<open>j\<close> of point \<open>i\<close>.
\<close>

record DPointArray =
  pt_N :: nat
  pt_coord :: "nat \<Rightarrow> nat \<Rightarrow> real"

text \<open>The conversion of the dense points to (1-based index, value) pairs, zeros skipped.\<close>

definition to_sparse :: "int \<Rightarrow> DPointArray \<Rightarrow> feature_row list" where
  "to_sparse d X =
     map (\<lambda>i. map (\<lambda>j. (int j + 1, pt_coord X i j))
                (filter (\<lambda>j. pt_coord X i j \<noteq> 0) [0..<nat d]))
         [0..<pt_N X]"

definition Seed :: int where
  "Seed = 0"

text \<open>What one sweep point did: its parameters, the generator state with which the
  feature generator was entered, the generated rows and the outcome.\<close>

record ('g, 'out) sweep_point =
  sw_lambda :: real
  sw_sigma :: real
  sw_generator :: 'g
  sw_features :: "feature_row list"
  sw_outcome :: 'out

fun sigma_loop ::
  "('g, 'out) externals \<Rightarrow> int \<Rightarrow> int \<Rightarrow> DPointArray \<Rightarrow> DPointArray \<Rightarrow> real \<Rightarrow> real list \<Rightarrow> 'g
     \<Rightarrow> ('g, 'out) sweep_point list \<times> 'g" where
  "sigma_loop E d r Xtrain Xtest lambda [] g = ([], g)"
| "sigma_loop E d r Xtrain Xtest lambda (sigma # sigmas) g =
     (let g1 = srandom E Seed;
          instances_old = to_sparse d Xtrain @ to_sparse d Xtest;
          (instances_new, g2) = random_binning_feature E g1 (d + 1) r instances_old sigma;
          (out, g3) = train_and_test E g2 lambda sigma instances_new;
          (points, g4) = sigma_loop E d r Xtrain Xtest lambda sigmas g3
      in (\<lparr>sw_lambda = lambda, sw_sigma = sigma, sw_generator = g1,
            sw_features = instances_new, sw_outcome = out\<rparr> # points, g4))"

fun lambda_loop ::
  "('g, 'out) externals \<Rightarrow> int \<Rightarrow> int \<Rightarrow> DPointArray \<Rightarrow> DPointArray \<Rightarrow> real list \<Rightarrow> real list \<Rightarrow> 'g
     \<Rightarrow> ('g, 'out) sweep_point list \<times> 'g" where
  "lambda_loop E d r Xtrain Xtest [] List_sigma g = ([], g)"
| "lambda_loop E d r Xtrain Xtest (lambda # lambdas) List_sigma g =
     (let (points, g') = sigma_loop E d r Xtrain Xtest lambda List_sigma g;
          (points', g'') = lambda_loop E d r Xtrain Xtest lambdas List_sigma g'
      in (points @ points', g''))"

text \<open>The feature rows that the generator yields from a freshly seeded state.\<close>

definition seeded_features ::
  "('g, 'out) externals \<Rightarrow> int \<Rightarrow> int \<Rightarrow> DPointArray \<Rightarrow> DPointArray \<Rightarrow> real \<Rightarrow> feature_row list" where
  "seeded_features E d r Xtrain Xtest sigma =
     fst (random_binning_feature E (srandom E 0) (d + 1) r
            (to_sparse d Xtrain @ to_sparse d Xtest) sigma)"


section \<open>Properties of the performance scorer\<close>

lemma binary_loop_filter:
  "length y1 = length y2 \<Longrightarrow>
   binary_loop y1 y2 perf
     = perf + real (length (filter (\<lambda>(a, b). product_positive a b) (zip y1 y2)))"
  by (induction y1 y2 arbitrary: perf rule: list_induct2) auto

lemma zip_filter_card:
  assumes len: "length y1 = length y2"
  shows "length (filter (\<lambda>(a, b). P a b) (zip y1 y2))
         = card {i. i < length y1 \<and> P (y1 ! i) (y2 ! i)}"
proof -
  have "{i. i < length (zip y1 y2) \<and> (\<lambda>(a, b). P a b) (zip y1 y2 ! i)}
        = {i. i < length y1 \<and> P (y1 ! i) (y2 ! i)}"
    using len by auto
  then show ?thesis
    by (simp add: length_filter_conv_card)
qed

lemma binary_loop_card:
  assumes "length y1 = length y2"
  shows "binary_loop y1 y2 0 = real (card {i. i < length y1 \<and> product_positive (y1 ! i) (y2 ! i)})"
  using assms binary_loop_filter [OF assms, of 0] zip_filter_card [OF assms, of product_positive]
  by simp

lemma card_index_le: "card {i. i < n \<and> P i} \<le> n"
proof -
  have "card {i. i < n \<and> P i} \<le> card {..<n}"
    by (rule card_mono) auto
  then show ?thesis by simp
qed

lemma above_threshold_iff_sgn:
  assumes "0 \<le> t"
  shows "t < a * b \<longleftrightarrow> a \<noteq> 0 \<and> b \<noteq> 0 \<and> sgn a = sgn (b::real) \<and> t < \<bar>a * b\<bar>"
proof
  assume "t < a * b"
  then have pos: "0 < a * b" using assms by simp
  then have "a \<noteq> 0 \<and> b \<noteq> 0 \<and> sgn a = sgn b"
    by (auto simp: zero_less_mult_iff sgn_real_def)
  moreover have "\<bar>a * b\<bar> = a * b" using pos by simp
  ultimately show "a \<noteq> 0 \<and> b \<noteq> 0 \<and> sgn a = sgn b \<and> t < \<bar>a * b\<bar>"
    using \<open>t < a * b\<close> by simp
next
  assume r: "a \<noteq> 0 \<and> b \<noteq> 0 \<and> sgn a = sgn b \<and> t < \<bar>a * b\<bar>"
  then have "0 < a * b"
    by (auto simp: zero_less_mult_iff sgn_real_def split: if_splits)
  then have "\<bar>a * b\<bar> = a * b" by simp
  with r show "t < a * b" by simp
qed

lemma product_positive_iff_sgn:
  "product_positive a b
     \<longleftrightarrow> a \<noteq> 0 \<and> b \<noteq> 0 \<and> sgn a = sgn b \<and> 1 / 2 ^ 1075 < \<bar>a * b\<bar>"
  unfolding product_positive_def by (rule above_threshold_iff_sgn) simp

lemma product_positive_zero: "a = 0 \<or> b = 0 \<Longrightarrow> \<not> product_positive a b"
  by (auto simp: product_positive_def)

lemma Performance_binary:
  assumes "length yt = length yp" "yt \<noteq> []"
  shows "Performance yt yp 2 =
         Inr (Fin (real (card {i. i < length yt \<and> product_positive (yt ! i) (yp ! i)})
                     / real (length yt) * 100))"
proof -
  have "length yp \<noteq> 0" using assms by auto
  then show ?thesis
    using assms by (simp add: Performance_def ddiv_def binary_loop_card Let_def)
qed

text \<open>
  Claim C6. Each overload prints an error exactly when its size or class-count
  precondition is violated, and whenever it prints an error it returns \<open>NAN\<close>: the vector
  overload when the lengths differ or \<open>NumClasses\<close> is neither 1 nor 2, the matrix overload
  when the truth length differs from the row count, the column count differs from
  \<open>NumClasses\<close>, or \<open>NumClasses \<le> 2\<close>.
\<close>

theorem Performance_reports_error_iff:
  "(reported (Performance yt yp nc) \<longleftrightarrow> length yt \<noteq> length yp \<or> nc \<notin> {1, 2})
   \<and> (reported (Performance yt yp nc) \<longrightarrow> returned (Performance yt yp nc) = NaN)
   \<and> (reported (Performance_DMatrix yt Yp nc)
        \<longleftrightarrow> length yt \<noteq> GetM Yp \<or> int (GetN Yp) \<noteq> nc \<or> nc \<le> 2)
   \<and> (reported (Performance_DMatrix yt Yp nc) \<longrightarrow> returned (Performance_DMatrix yt Yp nc) = NaN)"
  by (auto simp: reported_def Performance_def Performance_DMatrix_def Let_def)

text \<open>The spec's scenario, truth of length 5 against a prediction of length 4, and the
  class-count failures of both overloads.\<close>

theorem Performance_reports_error_iff_witness:
  "reported (Performance [1, 2, 3, 4, 5] [1, 2, 3, 4] 2)
   \<and> returned (Performance [1, 2, 3, 4, 5] [1, 2, 3, 4] 2) = NaN
   \<and> \<not> reported (Performance [1, -1] [1, 1] 2)
   \<and> reported (Performance [1, -1] [1, 1] 3)
   \<and> reported (Performance_DMatrix [0, 1] (DMatrix_Init 2 2) 2)"
  using Performance_reports_error_iff [of "[1, 2, 3, 4, 5]" "[1, 2, 3, 4]" 2 "DMatrix_Init 2 2"]
    Performance_reports_error_iff [of "[1, -1]" "[1, 1]" 2 "DMatrix_Init 2 2"]
    Performance_reports_error_iff [of "[1, -1]" "[1, 1]" 3 "DMatrix_Init 2 2"]
    Performance_reports_error_iff [of "[0, 1]" "[1, 1]" 2 "DMatrix_Init 2 2"]
  by (simp add: DMatrix_Init_def)

text \<open>
  Claim C7, as the spec words it, fails at two kinds of points. Where truth and prediction
  are both exactly 0 the two have equal sign, so the percentage of sign matches is 100,
  and the scorer, whose test is the strict \<open>y1[i]*y2[i] > 0\<close>, returns 0. Where both are
  \<open>2^-1000\<close> they are nonzero with equal sign, but their product underflows to \<open>0.0\<close> and
  the scorer returns 0 again.
\<close>

theorem Performance_binary_sign_counterexample:
  "Performance [0] [0] 2 = Inr (Fin 0) \<and> spec_sign_accuracy [0] [0] = 100
   \<and> Performance [1 / 2 ^ 1000] [1 / 2 ^ 1000] 2 = Inr (Fin 0)
   \<and> spec_sign_accuracy [1 / 2 ^ 1000] [1 / 2 ^ 1000] = 100"
proof -
  have "{i. i < length [0::real] \<and> sgn ([0::real] ! i) = sgn ([0::real] ! i)} = {0}"
    by auto
  then have s0: "spec_sign_accuracy [0] [0] = 100"
    by (simp add: spec_sign_accuracy_def)
  have p0: "Performance [0] [0] 2 = Inr (Fin 0)"
    by (simp add: Performance_def ddiv_def product_positive_def)
  let ?e = "1 / 2 ^ 1000 :: real"
  have "{i. i < length [?e] \<and> sgn ([?e] ! i) = sgn ([?e] ! i)} = {0}"
    by auto
  then have s1: "spec_sign_accuracy [?e] [?e] = 100"
    by (simp add: spec_sign_accuracy_def)
  have "\<not> product_positive ?e ?e"
    by (simp add: product_positive_def)
  then have p1: "Performance [?e] [?e] 2 = Inr (Fin 0)"
    by (simp add: Performance_def ddiv_def)
  from p0 s0 p1 s1 show ?thesis by blast
qed

text \<open>
  Claim C7, amended. For \<open>NumClasses = 2\<close> and non-empty vectors of equal length the
  scorer counts the indices where the double product \<open>y1[i]*y2[i]\<close> is positive: truth and
  prediction are both nonzero, have the same sign, and their product does not underflow
  to zero (its magnitude is above \<open>2^-1075\<close>). It returns that count divided by \<open>n\<close> and
  multiplied by 100, a value between 0 and 100. For truth \<open>[+1,-1,+1]\<close> and prediction
  \<open>[0.2,0.1,-0.3]\<close> the count is 1 of 3 and the result is \<open>100/3\<close> up to the rounding of the
  division and the multiplication: 33.33 to two decimals.
\<close>

theorem Performance_binary_accuracy:
  "(length yt = length yp \<and> yt \<noteq> [] \<longrightarrow>
     Performance yt yp 2 =
       Inr (Fin (real (card {i. i < length yt \<and> yt ! i \<noteq> 0 \<and> yp ! i \<noteq> 0
                                \<and> sgn (yt ! i) = sgn (yp ! i)
                                \<and> 1 / 2 ^ 1075 < \<bar>yt ! i * yp ! i\<bar>})
                   / real (length yt) * 100))
     \<and> (\<exists>p. Performance yt yp 2 = Inr (Fin p) \<and> 0 \<le> p \<and> p \<le> 100))
   \<and> binary_loop [1, -1, 1] [0.2, 0.1, -0.3] 0 = 1
   \<and> (\<exists>p. Performance [1, -1, 1] [0.2, 0.1, -0.3] 2 = Inr (Fin p)
          \<and> 33.33 \<le> p \<and> p \<le> 33.34)"
proof -
  have cnt: "binary_loop [1, -1, 1] [0.2, 0.1, -0.3] 0 = 1"
    by (simp add: product_positive_def)
  have val: "Performance [1, -1, 1] [0.2, 0.1, -0.3] 2 = Inr (Fin (100 / 3))"
    by (simp add: Performance_def ddiv_def product_positive_def)
  have "(33.33::real) \<le> 100 / 3" "(100::real) / 3 \<le> 33.34"
    by simp_all
  with val have ex: "\<exists>p. Performance [1, -1, 1] [0.2, 0.1, -0.3] 2 = Inr (Fin p)
          \<and> 33.33 \<le> p \<and> p \<le> 33.34"
    by blast
  {
    assume len: "length yt = length yp" and ne: "yt \<noteq> []"
    let ?c = "card {i. i < length yt \<and> product_positive (yt ! i) (yp ! i)}"
    have P: "Performance yt yp 2 = Inr (Fin (real ?c / real (length yt) * 100))"
      by (rule Performance_binary [OF len ne])
    have "?c \<le> length yt" by (rule card_index_le)
    moreover have "0 < length yt" using ne by simp
    ultimately have "real ?c / real (length yt) * 100 \<le> 100"
      by (simp add: divide_le_eq)
    moreover have "0 \<le> real ?c / real (length yt) * 100" by simp
    ultimately have "\<exists>p. Performance yt yp 2 = Inr (Fin p) \<and> 0 \<le> p \<and> p \<le> 100"
      using P by blast
    moreover have "Performance yt yp 2 =
       Inr (Fin (real (card {i. i < length yt \<and> yt ! i \<noteq> 0 \<and> yp ! i \<noteq> 0
                                \<and> sgn (yt ! i) = sgn (yp ! i)
                                \<and> 1 / 2 ^ 1075 < \<bar>yt ! i * yp ! i\<bar>})
                   / real (length yt) * 100))"
      using P unfolding product_positive_iff_sgn by simp
    ultimately have "Performance yt yp 2 =
       Inr (Fin (real (card {i. i < length yt \<and> yt ! i \<noteq> 0 \<and> yp ! i \<noteq> 0
                                \<and> sgn (yt ! i) = sgn (yp ! i)
                                \<and> 1 / 2 ^ 1075 < \<bar>yt ! i * yp ! i\<bar>})
                   / real (length yt) * 100))
     \<and> (\<exists>p. Performance yt yp 2 = Inr (Fin p) \<and> 0 \<le> p \<and> p \<le> 100)" by blast
  }
  with cnt ex show ?thesis by blast
qed

theorem Performance_binary_accuracy_witness:
  "\<exists>p. Performance [1, -1, 1] [0.2, 0.1, -0.3] 2 = Inr (Fin p) \<and> 0 \<le> p \<and> p \<le> 100"
proof -
  have h: "length [1, -1, 1 :: real] = length [0.2, 0.1, -0.3 :: real] \<and> [1, -1, 1 :: real] \<noteq> []"
    by simp
  from Performance_binary_accuracy [of "[1, -1, 1]" "[0.2, 0.1, -0.3]"] h show ?thesis by blast
qed

text \<open>
  Claim C10. In the binary scorer a test point whose truth or prediction is exactly 0 is
  counted as incorrect: it stays in the denominator and never enters the count of
  matches, whatever the other value is. With truth 0 and prediction 0 the accuracy is 0.
\<close>

theorem Performance_binary_zero_incorrect:
  "(length yt = length yp \<and> k < length yt \<and> (yt ! k = 0 \<or> yp ! k = 0) \<longrightarrow>
      Performance yt yp 2 =
        Inr (Fin (real (card {i. i < length yt \<and> i \<noteq> k \<and> product_positive (yt ! i) (yp ! i)})
                    / real (length yt) * 100)))
   \<and> Performance [0] [0] 2 = Inr (Fin 0)"
proof -
  have ex: "Performance [0] [0] 2 = Inr (Fin 0)"
    by (simp add: Performance_def ddiv_def product_positive_def)
  {
    assume len: "length yt = length yp" and k: "k < length yt"
      and z: "yt ! k = 0 \<or> yp ! k = 0"
    have ne: "yt \<noteq> []" using k by auto
    have "\<not> product_positive (yt ! k) (yp ! k)" using z by (rule product_positive_zero)
    then have "{i. i < length yt \<and> product_positive (yt ! i) (yp ! i)}
             = {i. i < length yt \<and> i \<noteq> k \<and> product_positive (yt ! i) (yp ! i)}"
      by auto
    then have "Performance yt yp 2 =
        Inr (Fin (real (card {i. i < length yt \<and> i \<noteq> k \<and> product_positive (yt ! i) (yp ! i)})
                    / real (length yt) * 100))"
      using Performance_binary [OF len ne] by simp
  }
  with ex show ?thesis by blast
qed

theorem Performance_binary_zero_incorrect_witness:
  "Performance [1, 0] [2, 5] 2 =
     Inr (Fin (real (card {i. i < length [1, 0 :: real] \<and> i \<noteq> 1
                              \<and> product_positive ([1, 0 :: real] ! i) ([2, 5] ! i)})
                    / real (length [1, 0 :: real]) * 100))"
  using Performance_binary_zero_incorrect [of "[1, 0]" "[2, 5]" 1] by simp

lemma Max_loop_first:
  assumes "first_argmax ys (nat idx)" "0 \<le> idx" "m = ys ! nat idx" "k = length ys"
  shows "0 \<le> Max_loop xs k m idx \<and> first_argmax (ys @ xs) (nat (Max_loop xs k m idx))"
  using assms
proof (induction xs arbitrary: ys k m idx)
  case Nil
  then show ?case by simp
next
  case (Cons x xs)
  show ?case
  proof (cases "m < x")
    case True
    have below: "ys ! j \<le> m" if "j < length ys" for j
      using Cons.prems that by (simp add: first_argmax_def)
    have fa: "first_argmax (ys @ [x]) (nat (int k))"
      unfolding first_argmax_def
    proof (intro conjI allI impI)
      show "nat (int k) < length (ys @ [x])" using Cons.prems by simp
    next
      fix j assume "j < length (ys @ [x])"
      then show "(ys @ [x]) ! j \<le> (ys @ [x]) ! nat (int k)"
        using below [of j] True Cons.prems by (auto simp: nth_append)
    next
      fix j assume "j < nat (int k)"
      then show "(ys @ [x]) ! j < (ys @ [x]) ! nat (int k)"
        using below [of j] True Cons.prems by (auto simp: nth_append)
    qed
    have "0 \<le> Max_loop xs (Suc k) x (int k)
          \<and> first_argmax ((ys @ [x]) @ xs) (nat (Max_loop xs (Suc k) x (int k)))"
      by (rule Cons.IH [OF fa]) (use Cons.prems in auto)
    then show ?thesis using True by simp
  next
    case False
    have fa: "first_argmax (ys @ [x]) (nat idx)"
      using Cons.prems False
      by (auto simp: first_argmax_def nth_append less_Suc_eq)
    have "0 \<le> Max_loop xs (Suc k) m idx
          \<and> first_argmax ((ys @ [x]) @ xs) (nat (Max_loop xs (Suc k) m idx))"
      by (rule Cons.IH [OF fa]) (use Cons.prems in \<open>auto simp: nth_append first_argmax_def\<close>)
    then show ?thesis using False by simp
  qed
qed

lemma Max_idx_first:
  assumes "row \<noteq> []"
  shows "0 \<le> Max_idx row \<and> first_argmax row (nat (Max_idx row))"
proof -
  obtain x xs where row: "row = x # xs" using assms by (cases row) auto
  have "first_argmax [x] (nat 0)" by (simp add: first_argmax_def)
  from Max_loop_first [OF this, of x 1 xs] show ?thesis
    by (simp add: row Max_idx_def)
qed

lemma multiclass_loop_filter:
  "length y1 = length y2 \<Longrightarrow>
   multiclass_loop y1 y2 perf
     = perf + real (length (filter (\<lambda>(a, b). int_cast a = int_cast b) (zip y1 y2)))"
  by (induction y1 y2 arbitrary: perf rule: list_induct2) auto

lemma int_cast_of_int: "int_cast (real_of_int k) = k"
  by (simp add: int_cast_def)

lemma multiclass_loop_card:
  "multiclass_loop yt (predict_classes Y (length yt)) 0
     = real (card {i. i < length yt \<and> int_cast (yt ! i) = Max_idx (GetRow Y i)})"
proof -
  have len: "length yt = length (predict_classes Y (length yt))"
    by (simp add: predict_classes_def)
  have "{i. i < length yt \<and> int_cast (yt ! i) = int_cast (predict_classes Y (length yt) ! i)}
        = {i. i < length yt \<and> int_cast (yt ! i) = Max_idx (GetRow Y i)}"
    by (auto simp: predict_classes_def int_cast_of_int)
  then show ?thesis
    using multiclass_loop_filter [OF len, of 0]
      zip_filter_card [OF len, of "\<lambda>a b. int_cast a = int_cast b"]
    by simp
qed

lemma Performance_DMatrix_value:
  assumes "length yt = GetM Y" "int (GetN Y) = nc" "2 < nc" "yt \<noteq> []"
  shows "Performance_DMatrix yt Y nc =
     Inr (Fin (real (card {i. i < length yt \<and> int_cast (yt ! i) = Max_idx (GetRow Y i)})
                 / real (length yt) * 100))"
proof -
  have m: "GetM Y = length yt" using assms(1) by simp
  have "length yt \<noteq> 0" using assms(4) by simp
  then show ?thesis
    using assms(2,3) by (simp add: Performance_DMatrix_def Let_def ddiv_def multiclass_loop_card m)
qed



text \<open>
  Claim C8. For \<open>NumClasses > 2\<close>, a truth vector of length \<open>n > 0\<close> and an \<open>n\<close> by
  \<open>NumClasses\<close> score matrix, the predicted class of each row is the argmax of the row
  with ties resolved to the lowest class index, and the scorer returns 100 times the
  fraction of rows whose predicted class equals the truth label cast to \<open>int\<close>. For truth
  \<open>[0,1,0,1]\<close> and scores whose argmax classes are \<open>[0,1,1,1]\<close> (the second row holds a
  tie between classes 1 and 2) it returns 75.
\<close>

theorem Performance_multiclass_accuracy:
  "(length yt = GetM Y \<and> int (GetN Y) = nc \<and> 2 < nc \<and> wf_DMatrix Y \<and> yt \<noteq> [] \<longrightarrow>
      (\<forall>i < length yt.
          0 \<le> Max_idx (GetRow Y i) \<and> Max_idx (GetRow Y i) < nc
          \<and> first_argmax (GetRow Y i) (nat (Max_idx (GetRow Y i))))
      \<and> Performance_DMatrix yt Y nc =
          Inr (Fin (real (card {i. i < length yt \<and> int_cast (yt ! i) = Max_idx (GetRow Y i)})
                      / real (length yt) * 100)))
   \<and> map (\<lambda>i. Max_idx (GetRow \<lparr>GetM = 4, GetN = 3,
        columns = [[0.9, 0.2, 0.1, 0.0], [0.1, 0.7, 0.6, 0.5], [0.0, 0.7, 0.3, 0.2]]\<rparr> i))
        [0, 1, 2, 3] = [0, 1, 1, 1]
   \<and> Performance_DMatrix [0, 1, 0, 1]
       \<lparr>GetM = 4, GetN = 3,
        columns = [[0.9, 0.2, 0.1, 0.0], [0.1, 0.7, 0.6, 0.5], [0.0, 0.7, 0.3, 0.2]]\<rparr> 3
     = Inr (Fin 75)"
proof -
  have ex1: "map (\<lambda>i. Max_idx (GetRow \<lparr>GetM = 4, GetN = 3,
        columns = [[0.9, 0.2, 0.1, 0.0], [0.1, 0.7, 0.6, 0.5], [0.0, 0.7, 0.3, 0.2]]\<rparr> i))
        [0, 1, 2, 3] = [0, 1, 1, 1]"
    by (simp add: GetRow_def Max_idx_def)
  have ex2: "Performance_DMatrix [0, 1, 0, 1]
       \<lparr>GetM = 4, GetN = 3,
        columns = [[0.9, 0.2, 0.1, 0.0], [0.1, 0.7, 0.6, 0.5], [0.0, 0.7, 0.3, 0.2]]\<rparr> 3
     = Inr (Fin 75)"
    by (simp add: Performance_DMatrix_def Let_def ddiv_def predict_classes_def GetRow_def
        Max_idx_def int_cast_def upt_rec)
  {
    assume a: "length yt = GetM Y" "int (GetN Y) = nc" "2 < nc" "wf_DMatrix Y" "yt \<noteq> []"
    have len: "length (GetRow Y i) = nat nc" for i
      using a(2,4) by (auto simp: GetRow_def wf_DMatrix_def)
    have "0 \<le> Max_idx (GetRow Y i) \<and> Max_idx (GetRow Y i) < nc
          \<and> first_argmax (GetRow Y i) (nat (Max_idx (GetRow Y i)))" for i
    proof -
      have ne: "GetRow Y i \<noteq> []" using len [of i] a(3) by auto
      from Max_idx_first [OF ne] have
        nn: "0 \<le> Max_idx (GetRow Y i)"
        and fa: "first_argmax (GetRow Y i) (nat (Max_idx (GetRow Y i)))"
        by auto
      from fa have "nat (Max_idx (GetRow Y i)) < nat nc"
        by (simp add: first_argmax_def len)
      with nn fa show ?thesis by auto
    qed
    then have "(\<forall>i < length yt.
          0 \<le> Max_idx (GetRow Y i) \<and> Max_idx (GetRow Y i) < nc
          \<and> first_argmax (GetRow Y i) (nat (Max_idx (GetRow Y i))))
      \<and> Performance_DMatrix yt Y nc =
          Inr (Fin (real (card {i. i < length yt \<and> int_cast (yt ! i) = Max_idx (GetRow Y i)})
                      / real (length yt) * 100))"
      using Performance_DMatrix_value [OF a(1,2,3,5)] by blast
  }
  with ex1 ex2 show ?thesis by blast
qed

theorem Performance_multiclass_accuracy_witness:
  "first_argmax (GetRow \<lparr>GetM = 4, GetN = 3,
        columns = [[0.9, 0.2, 0.1, 0.0], [0.1, 0.7, 0.6, 0.5], [0.0, 0.7, 0.3, 0.2]]\<rparr> 1)
     (nat (Max_idx (GetRow \<lparr>GetM = 4, GetN = 3,
        columns = [[0.9, 0.2, 0.1, 0.0], [0.1, 0.7, 0.6, 0.5], [0.0, 0.7, 0.3, 0.2]]\<rparr> 1)))"
proof -
  let ?Y = "\<lparr>GetM = 4, GetN = 3,
        columns = [[0.9, 0.2, 0.1, 0.0], [0.1, 0.7, 0.6, 0.5], [0.0, 0.7, 0.3, 0.2 :: real]]\<rparr>"
  have h: "length [0, 1, 0, 1 :: real] = GetM ?Y \<and> int (GetN ?Y) = 3 \<and> (2::int) < 3
           \<and> wf_DMatrix ?Y \<and> [0, 1, 0, 1 :: real] \<noteq> []"
    by (simp add: wf_DMatrix_def)
  have "(1::nat) < length [0, 1, 0, 1 :: real]" by simp
  with Performance_multiclass_accuracy [of "[0, 1, 0, 1]" ?Y 3] h show ?thesis by blast
qed

section \<open>Properties of the label recoding\<close>

lemma SetColumn_Some:
  assumes "0 \<le> i" "i < int (GetN A)" "length y = GetM A" "length (columns A) = GetN A"
  shows "SetColumn A i y = Some (A\<lparr>columns := (columns A)[nat i := y]\<rparr>)"
  using assms by (simp add: SetColumn_def)

lemma ConvertYtrain_loop_columns:
  assumes "length (columns Y) = GetN Y" "GetM Y = length ytrain" "int (GetN Y) = nc"
    "0 \<le> i" "i \<le> nc"
  shows "\<exists>Y'. ConvertYtrain_loop ytrain nc i Y = Some Y' \<and> GetM Y' = GetM Y \<and> GetN Y' = GetN Y
         \<and> length (columns Y') = GetN Y
         \<and> (\<forall>k < GetN Y. columns Y' ! k = (if i \<le> int k then recode (int k) ytrain else columns Y ! k))"
  using assms
proof (induction ytrain nc i Y rule: ConvertYtrain_loop.induct)
  case (1 ytrain nc i Y)
  show ?case
  proof (cases "i < nc")
    case False
    then have "i = nc" using "1.prems" by simp
    then show ?thesis using "1.prems" by (subst ConvertYtrain_loop.simps) auto
  next
    case True
    let ?Y1 = "Y\<lparr>columns := (columns Y)[nat i := recode i ytrain]\<rparr>"
    have sc: "SetColumn Y i (recode i ytrain) = Some ?Y1"
      by (rule SetColumn_Some) (use True "1.prems" in \<open>auto simp: recode_def\<close>)
    have "\<exists>Y'. ConvertYtrain_loop ytrain nc (i + 1) ?Y1 = Some Y' \<and> GetM Y' = GetM ?Y1
         \<and> GetN Y' = GetN ?Y1 \<and> length (columns Y') = GetN ?Y1
         \<and> (\<forall>k < GetN ?Y1. columns Y' ! k
               = (if i + 1 \<le> int k then recode (int k) ytrain else columns ?Y1 ! k))"
      by (rule "1.IH" [OF True sc]) (use True "1.prems" in auto)
    then obtain Y' where Y': "ConvertYtrain_loop ytrain nc (i + 1) ?Y1 = Some Y'"
      "GetM Y' = GetM Y" "GetN Y' = GetN Y" "length (columns Y') = GetN Y"
      "\<forall>k < GetN Y. columns Y' ! k
               = (if i + 1 \<le> int k then recode (int k) ytrain else columns ?Y1 ! k)"
      by auto
    have step: "ConvertYtrain_loop ytrain nc i Y = Some Y'"
      using True sc Y'(1) by (subst ConvertYtrain_loop.simps) simp
    have "columns Y' ! k = (if i \<le> int k then recode (int k) ytrain else columns Y ! k)"
      if k: "k < GetN Y" for k
    proof (cases "int k = i")
      case True
      then have "nat i = k" by simp
      then show ?thesis using Y'(5) k "1.prems"(1) True by auto
    next
      case False
      then have "nat i \<noteq> k" using "1.prems"(4) by auto
      then show ?thesis using Y'(5) k False by auto
    qed
    with step Y' show ?thesis by blast
  qed
qed

lemma ConvertYtrain_columns:
  assumes "0 \<le> nc"
  shows "\<exists>Y. ConvertYtrain ytrain nc = Some Y \<and> GetM Y = length ytrain \<and> int (GetN Y) = nc
           \<and> length (columns Y) = nat nc
           \<and> (\<forall>k < nat nc. columns Y ! k = recode (int k) ytrain)"
proof -
  let ?Y0 = "DMatrix_Init (length ytrain) (nat nc)"
  have "\<exists>Y'. ConvertYtrain_loop ytrain nc 0 ?Y0 = Some Y' \<and> GetM Y' = GetM ?Y0
         \<and> GetN Y' = GetN ?Y0 \<and> length (columns Y') = GetN ?Y0
         \<and> (\<forall>k < GetN ?Y0. columns Y' ! k
              = (if 0 \<le> int k then recode (int k) ytrain else columns ?Y0 ! k))"
    by (rule ConvertYtrain_loop_columns) (use assms in \<open>auto simp: DMatrix_Init_def\<close>)
  then show ?thesis
    using assms by (auto simp: ConvertYtrain_def DMatrix_Init_def)
qed

text \<open>
  Claim C9. For labels that are integers in \<open>[0, NumClasses)\<close> with \<open>NumClasses > 2\<close>,
  \<open>ConvertYtrain\<close> yields a matrix with one column per class whose entry \<open>(j, i)\<close> is \<open>+1\<close>
  if \<open>ytrain[j] = i\<close> and \<open>-1\<close> otherwise; in every row exactly one column is \<open>+1\<close> and all
  the others are \<open>-1\<close>.
\<close>

theorem ConvertYtrain_one_vs_all:
  "2 < nc \<and> (\<forall>v \<in> set ytrain. \<exists>c. v = real_of_int c \<and> 0 \<le> c \<and> c < nc) \<longrightarrow>
   (\<exists>Y. ConvertYtrain ytrain nc = Some Y \<and> GetM Y = length ytrain \<and> int (GetN Y) = nc
      \<and> wf_DMatrix Y
      \<and> (\<forall>j < length ytrain. \<forall>i < nat nc.
            entry Y j i = (if ytrain ! j = real i then 1 else -1))
      \<and> (\<forall>j < length ytrain. \<exists>k < nat nc.
            entry Y j k = 1 \<and> (\<forall>i < nat nc. i \<noteq> k \<longrightarrow> entry Y j i = -1)))"
proof (intro impI, elim conjE)
  assume nc: "2 < nc" and lab: "\<forall>v \<in> set ytrain. \<exists>c. v = real_of_int c \<and> 0 \<le> c \<and> c < nc"
  from ConvertYtrain_columns [of nc ytrain] nc obtain Y where
    Y: "ConvertYtrain ytrain nc = Some Y" "GetM Y = length ytrain" "int (GetN Y) = nc"
      "length (columns Y) = nat nc" "\<forall>k < nat nc. columns Y ! k = recode (int k) ytrain"
    by auto
  have wf: "wf_DMatrix Y"
    unfolding wf_DMatrix_def list_all_length
    using Y by (auto simp: recode_def)
  have ent: "entry Y j i = (if int_cast (ytrain ! j) = int i then 1 else -1)"
    if "j < length ytrain" "i < nat nc" for j i
    using that Y(5) by (simp add: entry_def recode_def)
  have label: "\<exists>c. ytrain ! j = real_of_int c \<and> 0 \<le> c \<and> c < nc" if "j < length ytrain" for j
    using lab that by auto
  have e1: "entry Y j i = (if ytrain ! j = real i then 1 else -1)"
    if j: "j < length ytrain" and i: "i < nat nc" for j i
  proof -
    from label [OF j] obtain c where c: "ytrain ! j = real_of_int c" "0 \<le> c" "c < nc" by auto
    have "(c = int i) \<longleftrightarrow> (real_of_int c = real i)"
      by (metis of_int_of_nat_eq of_int_eq_iff)
    then show ?thesis
      using ent [OF j i] c by (simp add: int_cast_of_int)
  qed
  have e2: "\<exists>k < nat nc. entry Y j k = 1 \<and> (\<forall>i < nat nc. i \<noteq> k \<longrightarrow> entry Y j i = -1)"
    if j: "j < length ytrain" for j
  proof -
    from label [OF j] obtain c where c: "ytrain ! j = real_of_int c" "0 \<le> c" "c < nc" by auto
    have k: "nat c < nat nc" using c by simp
    have "entry Y j (nat c) = 1"
      using ent [OF j k] c by (simp add: int_cast_of_int)
    moreover have "entry Y j i = -1" if "i < nat nc" "i \<noteq> nat c" for i
      using ent [OF j that(1)] c that(2) by (auto simp: int_cast_of_int)
    ultimately show ?thesis using k by blast
  qed
  show "\<exists>Y. ConvertYtrain ytrain nc = Some Y \<and> GetM Y = length ytrain \<and> int (GetN Y) = nc
      \<and> wf_DMatrix Y
      \<and> (\<forall>j < length ytrain. \<forall>i < nat nc.
            entry Y j i = (if ytrain ! j = real i then 1 else -1))
      \<and> (\<forall>j < length ytrain. \<exists>k < nat nc.
            entry Y j k = 1 \<and> (\<forall>i < nat nc. i \<noteq> k \<longrightarrow> entry Y j i = -1))"
    using Y(1,2,3) wf e1 e2 by blast
qed

theorem ConvertYtrain_one_vs_all_witness:
  "\<exists>Y. ConvertYtrain [0, 2, 1] 3 = Some Y \<and> entry Y 1 2 = 1 \<and> entry Y 1 0 = -1 \<and> entry Y 1 1 = -1"
proof -
  have l0: "\<exists>c. (0::real) = real_of_int c \<and> 0 \<le> c \<and> c < (3::int)"
    by (rule exI [of _ 0]) simp
  have l1: "\<exists>c. (1::real) = real_of_int c \<and> 0 \<le> c \<and> c < (3::int)"
    by (rule exI [of _ 1]) simp
  have l2: "\<exists>c. (2::real) = real_of_int c \<and> 0 \<le> c \<and> c < (3::int)"
    by (rule exI [of _ 2]) simp
  have h: "(2::int) < 3 \<and> (\<forall>v \<in> set [0, 2, 1 :: real]. \<exists>c. v = real_of_int c \<and> 0 \<le> c \<and> c < (3::int))"
    using l0 l1 l2 by simp
  from ConvertYtrain_one_vs_all [of 3 "[0, 2, 1]"] h obtain Y where
    Y: "ConvertYtrain [0, 2, 1] 3 = Some Y"
      "\<forall>j < length [0, 2, 1 :: real]. \<forall>i < nat 3.
            entry Y j i = (if [0, 2, 1 :: real] ! j = real i then 1 else -1)"
    by blast
  have "entry Y 1 2 = 1" "entry Y 1 0 = -1" "entry Y 1 1 = -1"
    using Y(2) [rule_format, of 1 2] Y(2) [rule_format, of 1 0] Y(2) [rule_format, of 1 1]
    by simp_all
  with Y(1) show ?thesis by blast
qed

section \<open>Properties of the sparse stores\<close>

lemma store_Some: "0 \<le> i \<Longrightarrow> nat i < length xs \<Longrightarrow> store xs i v = Some (xs[nat i := v])"
  by (auto simp: store_def)

lemma load_Some: "0 \<le> i \<Longrightarrow> nat i < length xs \<Longrightarrow> load xs i = Some (xs ! nat i)"
  by (auto simp: load_def)

lemma EYE_loop_ok:
  assumes "0 \<le> i" "i \<le> M" "length (mystart E) = nat M + 1" "length (myidx E) = nat M"
    "length (myX E) = nat M"
  shows "\<exists>E'. EYE_loop M i E = Some E' \<and> sp_N E' = sp_N E \<and> sp_D E' = sp_D E
    \<and> sp_nnz E' = sp_nnz E
    \<and> length (mystart E') = nat M + 1 \<and> length (myidx E') = nat M \<and> length (myX E') = nat M
    \<and> (\<forall>k < nat M + 1. mystart E' ! k = (if nat i \<le> k \<and> k < nat M then int k else mystart E ! k))
    \<and> (\<forall>k < nat M. myidx E' ! k = (if nat i \<le> k then int k else myidx E ! k))
    \<and> (\<forall>k < nat M. myX E' ! k = (if nat i \<le> k then 1 else myX E ! k))"
  using assms
proof (induction M i E rule: EYE_loop.induct)
  case (1 M i E)
  show ?case
  proof (cases "i < M")
    case False
    then have "i = M" using "1.prems" by simp
    then show ?thesis using "1.prems" by (subst EYE_loop.simps) auto
  next
    case True
    let ?E1 = "E\<lparr>mystart := (mystart E)[nat i := i], myidx := (myidx E)[nat i := i],
                  myX := (myX E)[nat i := 1]\<rparr>"
    have lt: "nat i < nat M" using True "1.prems"(1) by simp
    have s1: "store (mystart E) i i = Some ((mystart E)[nat i := i])"
      by (rule store_Some) (use lt "1.prems" in auto)
    have s2: "store (myidx E) i i = Some ((myidx E)[nat i := i])"
      by (rule store_Some) (use lt "1.prems" in auto)
    have s3: "store (myX E) i 1 = Some ((myX E)[nat i := 1])"
      by (rule store_Some) (use lt "1.prems" in auto)
    have "\<exists>E'. EYE_loop M (i + 1) ?E1 = Some E' \<and> sp_N E' = sp_N ?E1 \<and> sp_D E' = sp_D ?E1
      \<and> sp_nnz E' = sp_nnz ?E1
      \<and> length (mystart E') = nat M + 1 \<and> length (myidx E') = nat M \<and> length (myX E') = nat M
      \<and> (\<forall>k < nat M + 1. mystart E' ! k
            = (if nat (i + 1) \<le> k \<and> k < nat M then int k else mystart ?E1 ! k))
      \<and> (\<forall>k < nat M. myidx E' ! k = (if nat (i + 1) \<le> k then int k else myidx ?E1 ! k))
      \<and> (\<forall>k < nat M. myX E' ! k = (if nat (i + 1) \<le> k then 1 else myX ?E1 ! k))"
      by (rule "1.IH" [OF True s1 s2 s3]) (use True "1.prems" in auto)
    then obtain E' where E': "EYE_loop M (i + 1) ?E1 = Some E'"
      "sp_N E' = sp_N E" "sp_D E' = sp_D E" "sp_nnz E' = sp_nnz E"
      "length (mystart E') = nat M + 1" "length (myidx E') = nat M" "length (myX E') = nat M"
      "\<forall>k < nat M + 1. mystart E' ! k
            = (if nat (i + 1) \<le> k \<and> k < nat M then int k else mystart ?E1 ! k)"
      "\<forall>k < nat M. myidx E' ! k = (if nat (i + 1) \<le> k then int k else myidx ?E1 ! k)"
      "\<forall>k < nat M. myX E' ! k = (if nat (i + 1) \<le> k then 1 else myX ?E1 ! k)"
      by auto
    have step: "EYE_loop M i E = Some E'"
      using True s1 s2 s3 E'(1) by (subst EYE_loop.simps) simp
    have suc: "nat (i + 1) = Suc (nat i)" using "1.prems"(1) by simp
    have a: "mystart E' ! k = (if nat i \<le> k \<and> k < nat M then int k else mystart E ! k)"
      if "k < nat M + 1" for k
      using E'(8) that lt "1.prems"(1,3) unfolding suc
      by (cases "k = nat i") (auto simp: nth_list_update)
    have b: "myidx E' ! k = (if nat i \<le> k then int k else myidx E ! k)" if "k < nat M" for k
      using E'(9) that lt "1.prems"(1,4) unfolding suc
      by (cases "k = nat i") (auto simp: nth_list_update)
    have c: "myX E' ! k = (if nat i \<le> k then 1 else myX E ! k)" if "k < nat M" for k
      using E'(10) that lt "1.prems"(1,5) unfolding suc
      by (cases "k = nat i") (auto simp: nth_list_update)
    show ?thesis using step E'(2-7) a b c by blast
  qed
qed

text \<open>
  Claim C1. The identity preconditioner built in main has \<open>mystart[i] = i\<close>, \<open>myidx[i] = i\<close>
  and \<open>myX[i] = 1\<close> for every \<open>i < M\<close>, and its offsets are non-decreasing; but the
  statement after the loop stores \<open>M + 1\<close> at \<open>mystart[M]\<close>, so the final offset is not
  the number \<open>M\<close> of stored nonzeros.
\<close>

theorem make_EYE_final_offset:
  "0 \<le> M \<longrightarrow>
   (\<exists>EYE. make_EYE M = Some EYE \<and> sp_N EYE = M \<and> sp_D EYE = M \<and> sp_nnz EYE = M
      \<and> length (mystart EYE) = nat M + 1 \<and> length (myidx EYE) = nat M
      \<and> length (myX EYE) = nat M
      \<and> (\<forall>i < nat M. mystart EYE ! i = int i \<and> myidx EYE ! i = int i \<and> myX EYE ! i = 1)
      \<and> sorted (mystart EYE)
      \<and> mystart EYE ! nat M = M + 1
      \<and> mystart EYE ! nat M \<noteq> sp_nnz EYE)"
proof
  assume M: "0 \<le> M"
  let ?E0 = "\<lparr>sp_N = M, sp_D = M, sp_nnz = M, mystart = replicate (nat M + 1) 0,
              myidx = replicate (nat M) 0, myX = replicate (nat M) 0\<rparr>"
  have init: "SPointArray_Init M M M = Some ?E0"
    using M by (simp add: SPointArray_Init_def)
  have "\<exists>E'. EYE_loop M 0 ?E0 = Some E' \<and> sp_N E' = sp_N ?E0 \<and> sp_D E' = sp_D ?E0
    \<and> sp_nnz E' = sp_nnz ?E0
    \<and> length (mystart E') = nat M + 1 \<and> length (myidx E') = nat M \<and> length (myX E') = nat M
    \<and> (\<forall>k < nat M + 1. mystart E' ! k
          = (if nat 0 \<le> k \<and> k < nat M then int k else mystart ?E0 ! k))
    \<and> (\<forall>k < nat M. myidx E' ! k = (if nat 0 \<le> k then int k else myidx ?E0 ! k))
    \<and> (\<forall>k < nat M. myX E' ! k = (if nat 0 \<le> k then 1 else myX ?E0 ! k))"
    by (rule EYE_loop_ok) (use M in auto)
  then obtain E1 where run: "EYE_loop M 0 ?E0 = Some E1"
    and f: "sp_N E1 = sp_N ?E0" "sp_D E1 = sp_D ?E0" "sp_nnz E1 = sp_nnz ?E0"
    and l: "length (mystart E1) = nat M + 1" "length (myidx E1) = nat M" "length (myX E1) = nat M"
    and n1: "\<forall>k < nat M + 1. mystart E1 ! k
          = (if nat 0 \<le> k \<and> k < nat M then int k else mystart ?E0 ! k)"
    and n2: "\<forall>k < nat M. myidx E1 ! k = (if nat 0 \<le> k then int k else myidx ?E0 ! k)"
    and n3: "\<forall>k < nat M. myX E1 ! k = (if nat 0 \<le> k then 1 else myX ?E0 ! k)"
    by blast
  have E1: "sp_N E1 = M" "sp_D E1 = M" "sp_nnz E1 = M"
      "length (mystart E1) = nat M + 1" "length (myidx E1) = nat M" "length (myX E1) = nat M"
      "\<forall>k < nat M + 1. mystart E1 ! k = (if k < nat M then int k else 0)"
      "\<forall>k < nat M. myidx E1 ! k = int k"
      "\<forall>k < nat M. myX E1 ! k = 1"
  proof -
    have rep: "replicate (nat M + 1) (0::int) ! k = 0" if "k < nat M + 1" for k
      using that by (rule nth_replicate)
    show "\<forall>k < nat M + 1. mystart E1 ! k = (if k < nat M then int k else 0)"
    proof (intro allI impI)
      fix k assume k: "k < nat M + 1"
      have "mystart ?E0 ! k = 0" using rep [OF k] by simp
      with n1 k show "mystart E1 ! k = (if k < nat M then int k else 0)" by simp
    qed
  qed (use f l n2 n3 in simp_all)
  let ?E = "E1\<lparr>mystart := (mystart E1)[nat M := M + 1]\<rparr>"
  have st: "store (mystart E1) M (M + 1) = Some ((mystart E1)[nat M := M + 1])"
    by (rule store_Some) (use M E1(4) in auto)
  have mk: "make_EYE M = Some ?E"
    by (simp only: make_EYE_def init run st Option.bind.simps)
  have nth: "mystart ?E ! k = (if k < nat M then int k else M + 1)" if "k < nat M + 1" for k
    using that E1(4,7) by (cases "k = nat M") (auto simp: nth_list_update)
  have "sorted (mystart ?E)"
    unfolding sorted_iff_nth_mono
  proof (intro allI impI)
    fix i j assume "i \<le> j" "j < length (mystart ?E)"
    then have "i < nat M + 1" "j < nat M + 1" using E1(4) by auto
    with nth [of i] nth [of j] \<open>i \<le> j\<close> M show "mystart ?E ! i \<le> mystart ?E ! j"
      by (auto split: if_splits)
  qed
  moreover have "mystart ?E ! nat M = M + 1" using nth [of "nat M"] by simp
  moreover have "\<forall>i < nat M. mystart ?E ! i = int i \<and> myidx ?E ! i = int i \<and> myX ?E ! i = 1"
  proof (intro allI impI)
    fix i assume i: "i < nat M"
    then have "mystart ?E ! i = int i" using nth [of i] by simp
    then show "mystart ?E ! i = int i \<and> myidx ?E ! i = int i \<and> myX ?E ! i = 1"
      using E1(8,9) i by simp
  qed
  ultimately show "\<exists>EYE. make_EYE M = Some EYE \<and> sp_N EYE = M \<and> sp_D EYE = M \<and> sp_nnz EYE = M
      \<and> length (mystart EYE) = nat M + 1 \<and> length (myidx EYE) = nat M
      \<and> length (myX EYE) = nat M
      \<and> (\<forall>i < nat M. mystart EYE ! i = int i \<and> myidx EYE ! i = int i \<and> myX EYE ! i = 1)
      \<and> sorted (mystart EYE)
      \<and> mystart EYE ! nat M = M + 1
      \<and> mystart EYE ! nat M \<noteq> sp_nnz EYE"
    using mk E1(1-6) by (intro exI [of _ ?E]) simp
qed

theorem make_EYE_final_offset_witness:
  "\<exists>EYE. make_EYE 3 = Some EYE \<and> mystart EYE ! 3 = 4 \<and> sp_nnz EYE = 3"
proof -
  from make_EYE_final_offset [of 3] obtain EYE where
    "make_EYE 3 = Some EYE" "sp_nnz EYE = 3" "mystart EYE ! nat 3 = 3 + 1"
    by auto
  then show ?thesis by auto
qed

text \<open>The arrays of the preconditioner for \<open>M = 3\<close>.\<close>

lemma make_EYE_3:
  "make_EYE 3 = Some \<lparr>sp_N = 3, sp_D = 3, sp_nnz = 3, mystart = [0, 1, 2, 4],
                       myidx = [0, 1, 2], myX = [1, 1, 1]\<rparr>"
  by (simp add: make_EYE_def SPointArray_Init_def store_def EYE_loop.simps eval_nat_numeral)

subsection \<open>The population loop\<close>

lemma overwrite_step:
  assumes "n < length xs"
  shows "take (Suc n) (xs[n := v]) @ vs @ drop (Suc n + length vs) (xs[n := v])
         = take n xs @ (v # vs) @ drop (n + length (v # vs)) xs"
  using assms by (simp add: take_Suc_conv_app_nth)

lemma overwrite_twice:
  assumes "n + length a \<le> length xs"
  shows "take (n + length a) (take n xs @ a @ drop (n + length a) xs) @ b
           @ drop (n + length a + length b) (take n xs @ a @ drop (n + length a) xs)
         = take n xs @ (a @ b) @ drop (n + length (a @ b)) xs"
  using assms by (simp add: min_absorb2 add.commute add.left_commute)

lemma fill_row_ok:
  assumes "0 \<le> ind" "nat ind + length row \<le> length (myidx S)"
    "length (myX S) = length (myidx S)"
  shows "fill_row row ind S =
     Some (ind + int (length row),
           S\<lparr>myidx := take (nat ind) (myidx S) @ map (\<lambda>p. fst p - 1) row
                          @ drop (nat ind + length row) (myidx S),
              myX := take (nat ind) (myX S) @ map snd row
                        @ drop (nat ind + length row) (myX S)\<rparr>)"
  using assms
proof (induction row arbitrary: ind S)
  case Nil
  then show ?case by simp
next
  case (Cons p ps)
  let ?S1 = "S\<lparr>myidx := (myidx S)[nat ind := fst p - 1], myX := (myX S)[nat ind := snd p]\<rparr>"
  have lt: "nat ind < length (myidx S)" "nat ind < length (myX S)"
    using Cons.prems by auto
  have s1: "store (myidx S) ind (fst p - 1) = Some ((myidx S)[nat ind := fst p - 1])"
    by (rule store_Some) (use Cons.prems lt in auto)
  have s2: "store (myX S) ind (snd p) = Some ((myX S)[nat ind := snd p])"
    by (rule store_Some) (use Cons.prems lt in auto)
  have suc: "nat (ind + 1) = Suc (nat ind)" using Cons.prems(1) by simp
  have ih: "fill_row ps (ind + 1) ?S1 =
     Some (ind + 1 + int (length ps),
           ?S1\<lparr>myidx := take (nat (ind + 1)) (myidx ?S1) @ map (\<lambda>p. fst p - 1) ps
                          @ drop (nat (ind + 1) + length ps) (myidx ?S1),
              myX := take (nat (ind + 1)) (myX ?S1) @ map snd ps
                        @ drop (nat (ind + 1) + length ps) (myX ?S1)\<rparr>)"
    by (rule Cons.IH) (use Cons.prems in auto)
  have a: "take (nat (ind + 1)) (myidx ?S1) @ map (\<lambda>p. fst p - 1) ps
                          @ drop (nat (ind + 1) + length ps) (myidx ?S1)
           = take (nat ind) (myidx S) @ map (\<lambda>p. fst p - 1) (p # ps)
                          @ drop (nat ind + length (p # ps)) (myidx S)"
    using overwrite_step [OF lt(1), of "fst p - 1" "map (\<lambda>p. fst p - 1) ps"]
    unfolding suc by simp
  have b: "take (nat (ind + 1)) (myX ?S1) @ map snd ps
                          @ drop (nat (ind + 1) + length ps) (myX ?S1)
           = take (nat ind) (myX S) @ map snd (p # ps)
                          @ drop (nat ind + length (p # ps)) (myX S)"
    using overwrite_step [OF lt(2), of "snd p" "map snd ps"]
    unfolding suc by simp
  show ?case
    unfolding fill_row.simps s1 s2 Option.bind.simps ih a b by simp
qed

lemma length_concat_rows:
  "\<forall>row \<in> set rows. int (length row) = r \<Longrightarrow> int (length (concat rows)) = r * int (length rows)"
  by (induction rows) (auto simp: algebra_simps)

lemma fill_rows_ok:
  assumes "0 \<le> i" "ind = i * r" "\<forall>row \<in> set rows. int (length row) = r"
    "nat i + length rows \<le> length (mystart S)"
    "nat ind + length (concat rows) \<le> length (myidx S)"
    "length (myX S) = length (myidx S)"
    "\<forall>k < nat i. mystart S ! k = int k * r"
  shows "\<exists>S'. fill_rows r i rows ind S = Some (ind + int (length (concat rows)), S')
    \<and> sp_N S' = sp_N S \<and> sp_D S' = sp_D S \<and> sp_nnz S' = sp_nnz S
    \<and> length (mystart S') = length (mystart S)
    \<and> (\<forall>k < nat i + length rows. mystart S' ! k = int k * r)
    \<and> myidx S' = take (nat ind) (myidx S) @ map (\<lambda>p. fst p - 1) (concat rows)
                    @ drop (nat ind + length (concat rows)) (myidx S)
    \<and> myX S' = take (nat ind) (myX S) @ map snd (concat rows)
                    @ drop (nat ind + length (concat rows)) (myX S)"
  using assms
proof (induction rows arbitrary: i ind S)
  case Nil
  then show ?case by simp
next
  case (Cons row rows)
  have r: "int (length row) = r" using Cons.prems(3) by simp
  then have r0: "0 \<le> r" by auto
  have ind0: "0 \<le> ind" using Cons.prems(1,2) r0 by simp
  have ilt: "nat i < length (mystart S)" using Cons.prems(4) by simp
  let ?v = "i * r"
  have v: "(if i = 0 then Some 0 else map_option (\<lambda>x. x + r) (load (mystart S) (i - 1)))
           = Some ?v"
  proof (cases "i = 0")
    case True
    then show ?thesis by simp
  next
    case False
    then have pos: "0 \<le> i - 1" "nat (i - 1) < nat i" using Cons.prems(1) by auto
    have "load (mystart S) (i - 1) = Some (mystart S ! nat (i - 1))"
      by (rule load_Some) (use pos ilt in auto)
    moreover have "mystart S ! nat (i - 1) = int (nat (i - 1)) * r"
      using Cons.prems(7) pos(2) by blast
    ultimately show ?thesis using False pos(1) by (simp add: algebra_simps)
  qed
  let ?S0 = "S\<lparr>mystart := (mystart S)[nat i := ?v]\<rparr>"
  have st: "store (mystart S) i ?v = Some ((mystart S)[nat i := ?v])"
    by (rule store_Some) (use Cons.prems(1) ilt in auto)
  have fits: "nat ind + length row \<le> length (myidx ?S0)"
    using Cons.prems(5) by simp
  let ?idx1 = "take (nat ind) (myidx S) @ map (\<lambda>p. fst p - 1) row
                          @ drop (nat ind + length row) (myidx S)"
  let ?X1 = "take (nat ind) (myX S) @ map snd row @ drop (nat ind + length row) (myX S)"
  let ?S1 = "?S0\<lparr>myidx := ?idx1, myX := ?X1\<rparr>"
  have fr: "fill_row row ind ?S0 = Some (ind + int (length row), ?S1)"
    using fill_row_ok [of ind row ?S0] ind0 fits Cons.prems(6) by simp
  have len1: "length ?idx1 = length (myidx S)" "length ?X1 = length (myidx S)"
    using Cons.prems(5,6) by auto
  have nat_ind': "nat (ind + int (length row)) = nat ind + length row"
    using ind0 by (simp add: nat_add_distrib)
  have ih: "\<exists>S'. fill_rows r (i + 1) rows (ind + int (length row)) ?S1
        = Some (ind + int (length row) + int (length (concat rows)), S')
    \<and> sp_N S' = sp_N ?S1 \<and> sp_D S' = sp_D ?S1 \<and> sp_nnz S' = sp_nnz ?S1
    \<and> length (mystart S') = length (mystart ?S1)
    \<and> (\<forall>k < nat (i + 1) + length rows. mystart S' ! k = int k * r)
    \<and> myidx S' = take (nat (ind + int (length row))) (myidx ?S1)
                    @ map (\<lambda>p. fst p - 1) (concat rows)
                    @ drop (nat (ind + int (length row)) + length (concat rows)) (myidx ?S1)
    \<and> myX S' = take (nat (ind + int (length row))) (myX ?S1) @ map snd (concat rows)
                    @ drop (nat (ind + int (length row)) + length (concat rows)) (myX ?S1)"
  proof (rule Cons.IH)
    show "0 \<le> i + 1" using Cons.prems(1) by simp
    show "ind + int (length row) = (i + 1) * r"
      using Cons.prems(2) r by (simp add: algebra_simps)
    show "\<forall>row \<in> set rows. int (length row) = r" using Cons.prems(3) by simp
    show "nat (i + 1) + length rows \<le> length (mystart ?S1)"
      using Cons.prems(1,4) by (simp add: nat_add_distrib)
    show "nat (ind + int (length row)) + length (concat rows) \<le> length (myidx ?S1)"
      unfolding nat_ind' using Cons.prems(5) len1 by simp
    show "length (myX ?S1) = length (myidx ?S1)" using len1 by simp
    show "\<forall>k < nat (i + 1). mystart ?S1 ! k = int k * r"
    proof (intro allI impI)
      fix k assume k: "k < nat (i + 1)"
      show "mystart ?S1 ! k = int k * r"
      proof (cases "k = nat i")
        case True
        then show ?thesis using ilt Cons.prems(1) by simp
      next
        case False
        then have "k < nat i" using k Cons.prems(1) by auto
        then show ?thesis using Cons.prems(7) False by simp
      qed
    qed
  qed
  then obtain S' where S': "fill_rows r (i + 1) rows (ind + int (length row)) ?S1
        = Some (ind + int (length row) + int (length (concat rows)), S')"
    "sp_N S' = sp_N S" "sp_D S' = sp_D S" "sp_nnz S' = sp_nnz S"
    "length (mystart S') = length (mystart S)"
    "\<forall>k < nat (i + 1) + length rows. mystart S' ! k = int k * r"
    "myidx S' = take (nat ind + length row) ?idx1
                    @ map (\<lambda>p. fst p - 1) (concat rows)
                    @ drop (nat ind + length row + length (concat rows)) ?idx1"
    "myX S' = take (nat ind + length row) ?X1 @ map snd (concat rows)
                    @ drop (nat ind + length row + length (concat rows)) ?X1"
    unfolding nat_ind' by auto
  have run: "fill_rows r i (row # rows) ind S
             = Some (ind + int (length (concat (row # rows))), S')"
    unfolding fill_rows.simps v st Option.bind.simps fr
    using S'(1) by (simp add: add.assoc)
  have fit_a: "nat ind + length (map (\<lambda>p. fst p - 1) row) \<le> length (myidx S)"
    "nat ind + length (map snd row) \<le> length (myX S)"
    using Cons.prems(5,6) by auto
  have idx: "myidx S' = take (nat ind) (myidx S) @ map (\<lambda>p. fst p - 1) (concat (row # rows))
                    @ drop (nat ind + length (concat (row # rows))) (myidx S)"
    using overwrite_twice [OF fit_a(1), of "map (\<lambda>p. fst p - 1) (concat rows)"] S'(7)
    by simp
  have X: "myX S' = take (nat ind) (myX S) @ map snd (concat (row # rows))
                    @ drop (nat ind + length (concat (row # rows))) (myX S)"
    using overwrite_twice [OF fit_a(2), of "map snd (concat rows)"] S'(8)
    by simp
  have starts: "\<forall>k < nat i + length (row # rows). mystart S' ! k = int k * r"
    using S'(6) Cons.prems(1) by (simp add: nat_add_distrib)
  show ?case
    using run S'(2-5) starts idx X by blast
qed

lemma populate_ok:
  assumes rows: "\<forall>row \<in> set rows. int (length row) = r" and N: "N = int (length rows)"
  shows "\<exists>S. populate r N dd rows = Some S \<and> sp_N S = N \<and> sp_D S = dd \<and> sp_nnz S = r * N
    \<and> length (mystart S) = length rows + 1
    \<and> (\<forall>k < length rows + 1. mystart S ! k = int k * r)
    \<and> myidx S = map (\<lambda>p. fst p - 1) (concat rows)
    \<and> myX S = map snd (concat rows)"
proof -
  have cl: "int (length (concat rows)) = r * N"
    using length_concat_rows [OF rows] N by simp
  then have nnz0: "0 \<le> r * N" by (metis of_nat_0_le_iff)
  have nnz: "nat (r * N) = length (concat rows)" using cl by simp
  let ?S0 = "\<lparr>sp_N = N, sp_D = dd, sp_nnz = r * N, mystart = replicate (nat N + 1) 0,
              myidx = replicate (nat (r * N)) 0, myX = replicate (nat (r * N)) 0\<rparr>"
  have init: "SPointArray_Init N dd (r * N) = Some ?S0"
    using N nnz0 by (simp add: SPointArray_Init_def)
  have "\<exists>S'. fill_rows r 0 rows 0 ?S0 = Some (0 + int (length (concat rows)), S')
    \<and> sp_N S' = sp_N ?S0 \<and> sp_D S' = sp_D ?S0 \<and> sp_nnz S' = sp_nnz ?S0
    \<and> length (mystart S') = length (mystart ?S0)
    \<and> (\<forall>k < nat 0 + length rows. mystart S' ! k = int k * r)
    \<and> myidx S' = take (nat 0) (myidx ?S0) @ map (\<lambda>p. fst p - 1) (concat rows)
                    @ drop (nat 0 + length (concat rows)) (myidx ?S0)
    \<and> myX S' = take (nat 0) (myX ?S0) @ map snd (concat rows)
                    @ drop (nat 0 + length (concat rows)) (myX ?S0)"
    by (rule fill_rows_ok) (use rows N nnz in auto)
  then obtain S1 where run: "fill_rows r 0 rows 0 ?S0 = Some (0 + int (length (concat rows)), S1)"
    and f: "sp_N S1 = sp_N ?S0" "sp_D S1 = sp_D ?S0" "sp_nnz S1 = sp_nnz ?S0"
    and l: "length (mystart S1) = length (mystart ?S0)"
    and st: "\<forall>k < nat 0 + length rows. mystart S1 ! k = int k * r"
    and ix: "myidx S1 = take (nat 0) (myidx ?S0) @ map (\<lambda>p. fst p - 1) (concat rows)
                    @ drop (nat 0 + length (concat rows)) (myidx ?S0)"
    and x: "myX S1 = take (nat 0) (myX ?S0) @ map snd (concat rows)
                    @ drop (nat 0 + length (concat rows)) (myX ?S0)"
    by blast
  have len: "length (mystart S1) = length rows + 1" using l N by simp
  let ?S = "S1\<lparr>mystart := (mystart S1)[length rows := r * N]\<rparr>"
  have last: "store (mystart S1) (int (length rows)) (r * N)
              = Some ((mystart S1)[length rows := r * N])"
    using store_Some [of "int (length rows)" "mystart S1" "r * N"] len by simp
  have pop: "populate r N dd rows = Some ?S"
    by (simp only: populate_def Let_def init run last Option.bind.simps prod.case)
  have nth: "mystart ?S ! k = int k * r" if "k < length rows + 1" for k
  proof (cases "k = length rows")
    case True
    then show ?thesis using len N by (simp add: mult.commute)
  next
    case False
    then have "k < length rows" using that by simp
    then show ?thesis using st False by simp
  qed
  have "myidx ?S = map (\<lambda>p. fst p - 1) (concat rows)" using ix nnz by simp
  moreover have "myX ?S = map snd (concat rows)" using x nnz by simp
  moreover have "sp_N ?S = N" "sp_D ?S = dd" "sp_nnz ?S = r * N" using f by simp_all
  moreover have "length (mystart ?S) = length rows + 1" using len by simp
  ultimately show ?thesis using pop nth by blast
qed

text \<open>
  Claim C2. When every generated row holds exactly \<open>r\<close> pairs and there are
  \<open>N = n_train + n_test\<close> rows, the population loop runs without leaving its arrays and
  the store has \<open>mystart[i+1] - mystart[i] = r\<close> for every row \<open>i < N\<close>, non-decreasing
  offsets, and \<open>mystart[N] = nnz = r * N\<close>.
\<close>

theorem populate_row_offsets:
  "(\<forall>row \<in> set instances_new. int (length row) = r) \<and> N = int (length instances_new) \<longrightarrow>
   (\<exists>S. populate r N dd instances_new = Some S
      \<and> length (mystart S) = nat N + 1
      \<and> (\<forall>i < nat N. mystart S ! (i + 1) - mystart S ! i = r)
      \<and> sorted (mystart S)
      \<and> mystart S ! nat N = sp_nnz S
      \<and> sp_nnz S = r * N
      \<and> int (length (myidx S)) = sp_nnz S \<and> int (length (myX S)) = sp_nnz S)"
proof (intro impI, elim conjE)
  assume rows: "\<forall>row \<in> set instances_new. int (length row) = r"
    and N: "N = int (length instances_new)"
  from populate_ok [OF rows N, of dd] obtain S where
    S: "populate r N dd instances_new = Some S" "sp_nnz S = r * N"
      "length (mystart S) = length instances_new + 1"
      "\<forall>k < length instances_new + 1. mystart S ! k = int k * r"
      "myidx S = map (\<lambda>p. fst p - 1) (concat instances_new)"
      "myX S = map snd (concat instances_new)"
    by blast
  have n: "nat N = length instances_new" using N by simp
  have cl: "int (length (concat instances_new)) = r * N"
    using length_concat_rows [OF rows] N by simp
  have diff: "mystart S ! (i + 1) - mystart S ! i = r" if "i < nat N" for i
  proof -
    have "mystart S ! (i + 1) = int (i + 1) * r" "mystart S ! i = int i * r"
      using S(4) that n by auto
    then show ?thesis by (simp add: algebra_simps)
  qed
  have r0: "0 \<le> r" if "instances_new \<noteq> []"
  proof -
    from that obtain row where "row \<in> set instances_new" by (cases instances_new) auto
    with rows have "int (length row) = r" by blast
    then show ?thesis by auto
  qed
  have "sorted (mystart S)"
    unfolding sorted_iff_nth_mono
  proof (intro allI impI)
    fix i j assume ij: "i \<le> j" "j < length (mystart S)"
    then have ne: "instances_new \<noteq> [] \<or> i = j" using S(3) by (cases instances_new) auto
    have "mystart S ! i = int i * r" "mystart S ! j = int j * r" using S(3,4) ij by auto
    moreover have "int i * r \<le> int j * r"
      using ne ij(1) r0 by (auto intro: mult_right_mono)
    ultimately show "mystart S ! i \<le> mystart S ! j" by simp
  qed
  moreover have "mystart S ! nat N = sp_nnz S"
    using S(2,4) n N by (simp add: mult.commute)
  moreover have "int (length (myidx S)) = sp_nnz S" "int (length (myX S)) = sp_nnz S"
    using S(2,5,6) cl by simp_all
  ultimately show "\<exists>S. populate r N dd instances_new = Some S
      \<and> length (mystart S) = nat N + 1
      \<and> (\<forall>i < nat N. mystart S ! (i + 1) - mystart S ! i = r)
      \<and> sorted (mystart S)
      \<and> mystart S ! nat N = sp_nnz S
      \<and> sp_nnz S = r * N
      \<and> int (length (myidx S)) = sp_nnz S \<and> int (length (myX S)) = sp_nnz S"
    using S(1,2,3) n diff by auto
qed

theorem populate_row_offsets_witness:
  "\<exists>S. populate 2 3 9 [[(1, 1), (5, 1)], [(2, 1), (9, 1)], [(1, 1), (7, 1)]] = Some S
     \<and> mystart S ! 3 = 6 \<and> sp_nnz S = 6 \<and> mystart S ! 1 - mystart S ! 0 = 2"
proof -
  let ?rows = "[[(1, 1), (5, 1)], [(2, 1), (9, 1)], [(1, 1), (7, 1)]] :: feature_row list"
  have h: "(\<forall>row \<in> set ?rows. int (length row) = 2) \<and> (3::int) = int (length ?rows)"
    by simp
  from populate_row_offsets [of ?rows 2 3 9] h obtain S where
    S: "populate 2 3 9 ?rows = Some S"
      "\<forall>i < nat 3. mystart S ! (i + 1) - mystart S ! i = 2"
      "mystart S ! nat 3 = sp_nnz S" "sp_nnz S = 2 * 3"
    by blast
  have "mystart S ! 1 - mystart S ! 0 = 2" using S(2) [rule_format, of 0] by simp
  moreover have "mystart S ! 3 = 6" using S(3,4) by simp
  ultimately show ?thesis using S(1,4) by auto
qed

text \<open>The store of three rows of two pairs each.\<close>

lemma populate_example:
  "populate 2 3 9 [[(1, 1), (5, 1)], [(2, 1), (9, 1)], [(1, 1), (7, 1)]]
   = Some \<lparr>sp_N = 3, sp_D = 9, sp_nnz = 6, mystart = [0, 2, 4, 6],
           myidx = [0, 4, 1, 8, 0, 6], myX = [1, 1, 1, 1, 1, 1]\<rparr>"
  by (simp add: populate_def SPointArray_Init_def store_def load_def eval_nat_numeral)

subsection \<open>The column dimension\<close>

lemma sorted_last_max:
  assumes "sorted (map fst row)" "row \<noteq> []" "p \<in> set row"
  shows "fst p \<le> fst (last row)"
proof -
  from assms(3) obtain k where k: "k < length row" "row ! k = p"
    by (auto simp: in_set_conv_nth)
  have "map fst row ! k \<le> map fst row ! (length row - 1)"
    using assms(1,2) k(1) by (intro sorted_nth_mono) auto
  then show ?thesis
    using k assms(2) by (simp add: last_conv_nth)
qed

lemma dd_loop_ok:
  assumes "0 < r" "\<forall>row \<in> set rows. int (length row) = r \<and> sorted (map fst row)"
  shows "\<exists>m. dd_loop r rows dd = Some m \<and> dd \<le> m
           \<and> (\<forall>p \<in> set (concat rows). fst p \<le> m)
           \<and> (m = dd \<or> m \<in> fst ` set (concat rows))"
  using assms
proof (induction rows arbitrary: dd)
  case Nil
  then show ?case by simp
next
  case (Cons row rows)
  have len: "int (length row) = r" and srt: "sorted (map fst row)"
    using Cons.prems(2) by auto
  have ne: "row \<noteq> []" using len Cons.prems(1) by auto
  have "nat (r - 1) = length row - 1" using len by auto
  then have ld: "load row (r - 1) = Some (last row)"
    using load_Some [of "r - 1" row] Cons.prems(1) ne by (simp add: last_conv_nth)
  let ?dd = "if dd < fst (last row) then fst (last row) else dd"
  from Cons.IH [of ?dd] Cons.prems obtain m where
    m: "dd_loop r rows ?dd = Some m" "?dd \<le> m" "\<forall>p \<in> set (concat rows). fst p \<le> m"
      "m = ?dd \<or> m \<in> fst ` set (concat rows)"
    by auto
  have run: "dd_loop r (row # rows) dd = Some m"
    using ld m(1) by simp
  have ge: "dd \<le> m" "fst (last row) \<le> m" using m(2) by (auto split: if_splits)
  have up: "\<forall>p \<in> set (concat (row # rows)). fst p \<le> m"
    using m(3) ge(2) sorted_last_max [OF srt ne] by fastforce
  have "last row \<in> set row" using ne by simp
  then have att: "m = dd \<or> m \<in> fst ` set (concat (row # rows))"
    using m(4) by (auto split: if_splits)
  show ?case using run ge(1) up att by blast
qed

text \<open>
  Claim C5. When every generated row holds exactly \<open>r\<close> pairs in ascending order of their
  1-based feature ids (and there is at least one row, with \<open>r > 0\<close>), the column
  dimension passed to \<open>Init\<close> is the largest generated feature id, which is the largest
  stored 0-based column index plus 1; the stored column indices are the generated ids
  minus 1.
\<close>

theorem build_store_column_dimension:
  "0 < r \<and> instances_new \<noteq> [] \<and> N = int (length instances_new)
   \<and> (\<forall>row \<in> set instances_new.
         int (length row) = r \<and> sorted (map fst row) \<and> (\<forall>p \<in> set row. 1 \<le> fst p)) \<longrightarrow>
   (\<exists>S. build_store r N instances_new = Some S
      \<and> myidx S = map (\<lambda>p. fst p - 1) (concat instances_new)
      \<and> sp_D S = Max (fst ` set (concat instances_new))
      \<and> sp_D S = Max (set (myidx S)) + 1)"
proof (intro impI, elim conjE)
  assume r: "0 < r" and ne: "instances_new \<noteq> []" and N: "N = int (length instances_new)"
    and rows: "\<forall>row \<in> set instances_new.
         int (length row) = r \<and> sorted (map fst row) \<and> (\<forall>p \<in> set row. 1 \<le> fst p)"
  have rows1: "\<forall>row \<in> set instances_new. int (length row) = r \<and> sorted (map fst row)"
    and rows2: "\<forall>row \<in> set instances_new. int (length row) = r"
    using rows by auto
  from dd_loop_ok [OF r rows1, of 0] obtain m where
    m: "dd_loop r instances_new 0 = Some m" "0 \<le> m"
      "\<forall>p \<in> set (concat instances_new). fst p \<le> m"
      "m = 0 \<or> m \<in> fst ` set (concat instances_new)"
    by blast
  from populate_ok [OF rows2 N, of m] obtain S where
    S: "populate r N m instances_new = Some S" "sp_D S = m"
      "myidx S = map (\<lambda>p. fst p - 1) (concat instances_new)"
    by blast
  have bs: "build_store r N instances_new = Some S"
    by (simp add: build_store_def m(1) S(1))
  obtain row where row: "row \<in> set instances_new" using ne by (cases instances_new) auto
  then have "row \<noteq> []" using rows r by auto
  then obtain p where p: "p \<in> set row" by (cases row) auto
  have pc: "p \<in> set (concat instances_new)" using row p by auto
  have "1 \<le> fst p" using rows row p by blast
  then have "1 \<le> m" using m(3) pc by force
  then have att: "m \<in> fst ` set (concat instances_new)" using m(4) by auto
  have max1: "Max (fst ` set (concat instances_new)) = m"
    by (rule Max_eqI) (use m(3) att in auto)
  have "Max (set (myidx S)) = m - 1"
  proof (rule Max_eqI)
    show "finite (set (myidx S))" by simp
    show "y \<le> m - 1" if "y \<in> set (myidx S)" for y
    proof -
      from that obtain q where q: "q \<in> set (concat instances_new)" "y = fst q - 1"
        unfolding S(3) by auto
      then have "fst q \<le> m" using m(3) by blast
      then show ?thesis using q(2) by simp
    qed
    show "m - 1 \<in> set (myidx S)" using att unfolding S(3) by auto
  qed
  then show "\<exists>S. build_store r N instances_new = Some S
      \<and> myidx S = map (\<lambda>p. fst p - 1) (concat instances_new)
      \<and> sp_D S = Max (fst ` set (concat instances_new))
      \<and> sp_D S = Max (set (myidx S)) + 1"
    using bs S(2,3) max1 by auto
qed

theorem build_store_column_dimension_witness:
  "\<exists>S. build_store 2 3 [[(1, 1), (5, 1)], [(2, 1), (9, 1)], [(1, 1), (7, 1)]] = Some S
     \<and> sp_D S = 9 \<and> Max (set (myidx S)) = 8"
proof -
  let ?rows = "[[(1, 1), (5, 1)], [(2, 1), (9, 1)], [(1, 1), (7, 1)]] :: feature_row list"
  have h: "(0::int) < 2 \<and> ?rows \<noteq> [] \<and> (3::int) = int (length ?rows)
   \<and> (\<forall>row \<in> set ?rows.
         int (length row) = 2 \<and> sorted (map fst row) \<and> (\<forall>p \<in> set row. 1 \<le> fst p))"
    by simp
  from build_store_column_dimension [of 2 ?rows 3] h obtain S where
    S: "build_store 2 3 ?rows = Some S" "sp_D S = Max (fst ` set (concat ?rows))"
       "sp_D S = Max (set (myidx S)) + 1"
    by blast
  have "Max (fst ` set (concat ?rows)) = 9" by simp
  with S show ?thesis by auto
qed

lemma build_store_example:
  "build_store 2 3 [[(1, 1), (5, 1)], [(2, 1), (9, 1)], [(1, 1), (7, 1)]]
   = Some \<lparr>sp_N = 3, sp_D = 9, sp_nnz = 6, mystart = [0, 2, 4, 6],
           myidx = [0, 4, 1, 8, 0, 6], myX = [1, 1, 1, 1, 1, 1]\<rparr>"
  by (simp add: build_store_def populate_def SPointArray_Init_def store_def load_def eval_nat_numeral)

section \<open>Properties of the argument parser\<close>

lemma next_arg_at:
  "idx = length pre \<Longrightarrow> next_arg (pre @ x # post) idx = Some (x, idx + 1)"
  by (simp add: next_arg_def)

lemma read_list_at:
  "idx = length pre \<Longrightarrow> n = length xs \<Longrightarrow>
   read_list atof (pre @ xs @ post) n idx = Some (map atof xs, idx + length xs)"
proof (induction xs arbitrary: pre idx n)
  case Nil
  then show ?case by simp
next
  case (Cons x xs)
  have na: "next_arg (pre @ x # xs @ post) idx = Some (x, idx + 1)"
    using next_arg_at [OF Cons.prems(1), of x "xs @ post"] by simp
  have "read_list atof ((pre @ [x]) @ xs @ post) (length xs) (idx + 1)
        = Some (map atof xs, idx + 1 + length xs)"
    by (rule Cons.IH) (use Cons.prems in auto)
  then have rl: "read_list atof (pre @ x # xs @ post) (length xs) (Suc idx)
        = Some (map atof xs, Suc (idx + length xs))"
    by simp
  show ?case
    unfolding Cons.prems(2) by (simp add: na rl)
qed

text \<open>
  Claim C4. The parser consumes, in this order, \<open>NumThreads\<close>, \<open>FileTrain\<close>, \<open>FileTest\<close>,
  \<open>NumClasses\<close>, \<open>d\<close>, \<open>r\<close>, \<open>Num_lambda\<close>, \<open>Num_lambda\<close> values of lambda, \<open>Num_sigma\<close>,
  \<open>Num_sigma\<close> values of sigma, \<open>MAXIT\<close>, \<open>TOL\<close> and \<open>verbose\<close>: the argument after \<open>r\<close> is
  read as \<open>Num_lambda\<close> (no seed), and after \<open>verbose\<close> the index stands at
  \<open>12 + Num_lambda + Num_sigma\<close>; whatever follows (no kernel name either) is not read.
\<close>

theorem parse_args_positional:
  "atoi nl = int (length lams) \<and> atoi ns = int (length sigs) \<longrightarrow>
   parse_args atoi atof
     (prog # nt # ftrain # ftest # nc # d # r # nl # lams @ ns # sigs @ mi # tol # vb # extra)
   = Some (\<lparr>arg_NumThreads = atoi nt, arg_FileTrain = ftrain, arg_FileTest = ftest,
             arg_NumClasses = atoi nc, arg_d = atoi d, arg_r = atoi r,
             arg_Num_lambda = atoi nl, arg_List_lambda = map atof lams,
             arg_Num_sigma = atoi ns, arg_List_sigma = map atof sigs,
             arg_MAXIT = atoi mi, arg_TOL = atof tol, arg_verbose = (atoi vb \<noteq> 0)\<rparr>,
           12 + length lams + length sigs)"
proof (intro impI, elim conjE)
  assume nl: "atoi nl = int (length lams)" and ns: "atoi ns = int (length sigs)"
  let ?pre = "[prog, nt, ftrain, ftest, nc, d, r, nl]"
  let ?argv = "prog # nt # ftrain # ftest # nc # d # r # nl # lams @ ns # sigs @ mi # tol # vb # extra"
  have a1: "next_arg ?argv 1 = Some (nt, 2)"
    and a2: "next_arg ?argv 2 = Some (ftrain, 3)"
    and a3: "next_arg ?argv 3 = Some (ftest, 4)"
    and a4: "next_arg ?argv 4 = Some (nc, 5)"
    and a5: "next_arg ?argv 5 = Some (d, 6)"
    and a6: "next_arg ?argv 6 = Some (r, 7)"
    and a7: "next_arg ?argv 7 = Some (nl, 8)"
    by (simp_all add: next_arg_def)
  have a8: "read_list atof ?argv (length lams) 8 = Some (map atof lams, 8 + length lams)"
    using read_list_at [of 8 ?pre "length lams" lams atof "ns # sigs @ mi # tol # vb # extra"]
    by simp
  have a9: "next_arg ?argv (8 + length lams) = Some (ns, 9 + length lams)"
    using next_arg_at [of "8 + length lams" "?pre @ lams" ns "sigs @ mi # tol # vb # extra"]
    by simp
  have a10: "read_list atof ?argv (length sigs) (9 + length lams)
             = Some (map atof sigs, 9 + length lams + length sigs)"
    using read_list_at [of "9 + length lams" "?pre @ lams @ [ns]" "length sigs" sigs atof
        "mi # tol # vb # extra"]
    by simp
  have a11: "next_arg ?argv (9 + length lams + length sigs) = Some (mi, 10 + length lams + length sigs)"
    using next_arg_at [of "9 + length lams + length sigs" "?pre @ lams @ [ns] @ sigs" mi
        "tol # vb # extra"]
    by simp
  have a12: "next_arg ?argv (10 + length lams + length sigs) = Some (tol, 11 + length lams + length sigs)"
    using next_arg_at [of "10 + length lams + length sigs" "?pre @ lams @ [ns] @ sigs @ [mi]" tol
        "vb # extra"]
    by simp
  have a13: "next_arg ?argv (11 + length lams + length sigs) = Some (vb, 12 + length lams + length sigs)"
    using next_arg_at [of "11 + length lams + length sigs" "?pre @ lams @ [ns] @ sigs @ [mi, tol]" vb
        extra]
    by simp
  show "parse_args atoi atof ?argv
   = Some (\<lparr>arg_NumThreads = atoi nt, arg_FileTrain = ftrain, arg_FileTest = ftest,
             arg_NumClasses = atoi nc, arg_d = atoi d, arg_r = atoi r,
             arg_Num_lambda = atoi nl, arg_List_lambda = map atof lams,
             arg_Num_sigma = atoi ns, arg_List_sigma = map atof sigs,
             arg_MAXIT = atoi mi, arg_TOL = atof tol, arg_verbose = (atoi vb \<noteq> 0)\<rparr>,
           12 + length lams + length sigs)"
    unfolding parse_args_def
    by (simp only: a1 a2 a3 a4 a5 a6 a7 a8 a9 a10 a11 a12 a13 nl ns nat_int
        Option.bind.simps prod.case)
qed

theorem parse_args_positional_witness:
  "\<exists>a. parse_args atoi_decimal (\<lambda>s. real (decimal s 0))
         [''prog'', ''4'', ''train'', ''test'', ''3'', ''10'', ''100'',
          ''2'', ''1'', ''2'', ''1'', ''5'', ''50'', ''0'', ''1''] = Some (a, 15)
       \<and> arg_r a = 100 \<and> arg_Num_lambda a = 2 \<and> arg_List_lambda a = [1, 2]
       \<and> arg_Num_sigma a = 1 \<and> arg_List_sigma a = [5] \<and> arg_MAXIT a = 50 \<and> arg_verbose a"
proof -
  have h: "atoi_decimal ''2'' = int (length [''1'', ''2''])
           \<and> atoi_decimal ''1'' = int (length [''5''])"
    by (simp add: atoi_decimal_def)
  have v: "atoi_decimal ''100'' = 100" "atoi_decimal ''50'' = 50" "atoi_decimal ''1'' = 1"
    "atoi_decimal ''2'' = 2" "real (decimal ''1'' 0) = 1" "real (decimal ''2'' 0) = 2"
    "real (decimal ''5'' 0) = 5"
    by (simp_all add: atoi_decimal_def)
  from parse_args_positional [of atoi_decimal "''2''" "[''1'', ''2'']" "''1''" "[''5'']"
      "\<lambda>s. real (decimal s 0)" "''prog''" "''4''" "''train''" "''test''" "''3''" "''10''" "''100''"
      "''50''" "''0''" "''1''" "[]"] h
  show ?thesis by (simp add: v)
qed

section \<open>Properties of the hyperparameter sweep\<close>

lemma sigma_loop_points:
  "map (\<lambda>p. (sw_lambda p, sw_sigma p, sw_generator p, sw_features p))
       (fst (sigma_loop E d r Xtrain Xtest lambda sigmas g))
   = map (\<lambda>sigma. (lambda, sigma, srandom E 0, seeded_features E d r Xtrain Xtest sigma)) sigmas"
  by (induction sigmas arbitrary: g)
     (simp_all add: Let_def case_prod_unfold Seed_def seeded_features_def)

text \<open>
  Claim C3. Before every \<open>(lambda, sigma)\<close> combination main reseeds the generator with
  the fixed seed 0. Every sweep point, in the order of the cross product of the two
  lists, enters the feature generator with the state \<open>srandom(0)\<close>, whatever state the
  generator had before the sweep and whatever the previous point left; so the generated
  rows are those of the freshly seeded generator for the point's \<open>sigma\<close>, and depend
  neither on \<open>lambda\<close> nor on the position in the sweep.
\<close>

theorem sweep_reseeds_every_point:
  "map (\<lambda>p. (sw_lambda p, sw_sigma p, sw_generator p, sw_features p))
       (fst (lambda_loop E d r Xtrain Xtest List_lambda List_sigma g0))
   = map (\<lambda>(lambda, sigma). (lambda, sigma, srandom E 0, seeded_features E d r Xtrain Xtest sigma))
       (List.product List_lambda List_sigma)"
proof (induction List_lambda arbitrary: g0)
  case Nil
  then show ?case by simp
next
  case (Cons lambda lambdas)
  show ?case
    by (simp add: Let_def case_prod_unfold Cons.IH sigma_loop_points comp_def)
qed

theorem sweep_reseeds_every_point_witness:
  "map (\<lambda>p. (sw_lambda p, sw_sigma p, sw_generator p, sw_features p))
       (fst (lambda_loop
               \<lparr>srandom = (\<lambda>s. s),
                random_binning_feature = (\<lambda>g D r inst sigma. ([[(g + 1, sigma)]], g + 1)),
                train_and_test = (\<lambda>g lambda sigma rows. (lambda * sigma, g + 7))\<rparr>
               2 1 \<lparr>pt_N = 1, pt_coord = (\<lambda>i j. 1)\<rparr> \<lparr>pt_N = 1, pt_coord = (\<lambda>i j. 1)\<rparr>
               [1, 2] [3] (5::int)))
   = [(1, 3, 0, [[(1, 3)]]), (2, 3, 0, [[(1, 3)]])]"
  using sweep_reseeds_every_point [of "\<lparr>srandom = (\<lambda>s. s),
                random_binning_feature = (\<lambda>g D r inst sigma. ([[(g + 1, sigma)]], g + 1)),
                train_and_test = (\<lambda>g lambda sigma rows. (lambda * sigma, g + 7))\<rparr>"
      2 1 "\<lparr>pt_N = 1, pt_coord = (\<lambda>i j. 1)\<rparr>" "\<lparr>pt_N = 1, pt_coord = (\<lambda>i j. 1)\<rparr>"
      "[1, 2]" "[3]" "5::int"]
  by (simp add: seeded_features_def)

end
